theory Spec2Isabelle
  imports Complex_Main "HOL-Library.Word" "HOL-Library.Sublist" "HOL-Library.Multiset"
begin

unbundle bit_operations_syntax

section \<open>Counter wraparound (src/internal/collector/mikrotik/pppoe.go: Handle32BitCounterWrap, Handle64BitCounterWrap)\<close>

text \<open>
  Go's \<open>uint64\<close> is a 64-bit word: subtraction and addition wrap modulo \<open>2 ^ 64\<close>,
  and \<open>>=\<close> compares the unsigned values.
\<close>

type_synonym uint64 = "64 word"

definition Handle32BitCounterWrap :: "uint64 \<Rightarrow> uint64 \<Rightarrow> uint64" where
  "Handle32BitCounterWrap current previous =
     (if current \<ge> previous then current - previous
      else (0xFFFFFFFF - previous) + current + 1)"

definition Handle64BitCounterWrap :: "uint64 \<Rightarrow> uint64 \<Rightarrow> uint64" where
  "Handle64BitCounterWrap current previous =
     (if current \<ge> previous then current - previous
      else (0xFFFFFFFFFFFFFFFF - previous) + current + 1)"

section \<open>Wire protocol codec (src/internal/collector/mikrotik/collector.go: EncodeLength, DecodeLength)\<close>

text \<open>
  Go's \<open>int\<close> is 64 bits wide on the 64-bit targets of the Makefile and 32 bits wide
  on armv7. For a length from 0 up to the largest \<open>int\<close> of the target no operation
  below wraps, so the unbounded \<open>int\<close> stands for it: \<open>>>\<close> is \<open>drop_bit\<close>, \<open><<\<close> is
  \<open>push_bit\<close>, and \<open>byte(x)\<close> keeps the low 8 bits. On armv7 a length of \<open>2 ^ 31\<close> or
  more is not a value of \<open>int\<close> and cannot be passed to \<open>EncodeLength\<close>. An \<open>io.Reader\<close>
  over a byte buffer is the list of bytes still unread.
\<close>

type_synonym byte = "8 word"

definition byte_of :: "int \<Rightarrow> byte" where
  "byte_of x = word_of_int x"

definition EncodeLength :: "int \<Rightarrow> byte list" where
  "EncodeLength len =
     (if len < 0x80 then [byte_of len]
      else if len < 0x4000 then
        [byte_of (drop_bit 8 len OR 0x80), byte_of (len AND 0xFF)]
      else if len < 0x200000 then
        [byte_of (drop_bit 16 len OR 0xC0), byte_of (drop_bit 8 len AND 0xFF),
         byte_of (len AND 0xFF)]
      else if len < 0x10000000 then
        [byte_of (drop_bit 24 len OR 0xE0), byte_of (drop_bit 16 len AND 0xFF),
         byte_of (drop_bit 8 len AND 0xFF), byte_of (len AND 0xFF)]
      else
        [0xF0, byte_of (drop_bit 24 len AND 0xFF), byte_of (drop_bit 16 len AND 0xFF),
         byte_of (drop_bit 8 len AND 0xFF), byte_of (len AND 0xFF)])"

datatype io_error = EOF | ErrUnexpectedEOF

text \<open>
  \<open>io.ReadFull(r, buf)\<close> with \<open>len(buf) = n\<close>: the \<open>n\<close> bytes read and the rest of the
  reader, \<open>io.EOF\<close> when no byte was left, \<open>io.ErrUnexpectedEOF\<close> when fewer than
  \<open>n\<close> were.
\<close>

definition ReadFull :: "nat \<Rightarrow> byte list \<Rightarrow> io_error + (byte list \<times> byte list)" where
  "ReadFull n r =
     (if n \<le> length r then Inr (take n r, drop n r)
      else if r = [] then Inl EOF
      else Inl ErrUnexpectedEOF)"

text \<open>\<open>binary.BigEndian.Uint32\<close> on the four bytes read into \<open>extra\<close>.\<close>

definition BigEndian_Uint32 :: "byte list \<Rightarrow> 32 word" where
  "BigEndian_Uint32 b =
     ucast (b ! 3) OR push_bit 8 (ucast (b ! 2)) OR push_bit 16 (ucast (b ! 1))
       OR push_bit 24 (ucast (b ! 0))"

definition DecodeLength :: "byte list \<Rightarrow> io_error + (int \<times> byte list)" where
  "DecodeLength r =
     (case ReadFull 1 r of
        Inl err \<Rightarrow> Inl err
      | Inr (firstByte, r1) \<Rightarrow>
          let b = firstByte ! 0 in
          if b < 0x80 then Inr (uint b, r1)
          else if b < 0xC0 then
            (case ReadFull 1 r1 of
               Inl err \<Rightarrow> Inl err
             | Inr (secondByte, r2) \<Rightarrow>
                 Inr (push_bit 8 (uint (b AND 0x3F)) OR uint (secondByte ! 0), r2))
          else if b < 0xE0 then
            (case ReadFull 2 r1 of
               Inl err \<Rightarrow> Inl err
             | Inr (extra, r2) \<Rightarrow>
                 Inr (push_bit 16 (uint (b AND 0x1F)) OR push_bit 8 (uint (extra ! 0))
                        OR uint (extra ! 1), r2))
          else if b < 0xF0 then
            (case ReadFull 3 r1 of
               Inl err \<Rightarrow> Inl err
             | Inr (extra, r2) \<Rightarrow>
                 Inr (push_bit 24 (uint (b AND 0x0F)) OR push_bit 16 (uint (extra ! 0))
                        OR push_bit 8 (uint (extra ! 1)) OR uint (extra ! 2), r2))
          else
            (case ReadFull 4 r1 of
               Inl err \<Rightarrow> Inl err
             | Inr (extra, r2) \<Rightarrow> Inr (uint (BigEndian_Uint32 extra), r2)))"

section \<open>Interface filter (src/internal/collector/mikrotik/pppoe.go: MatchFilter, matchGlob)\<close>

text \<open>
  A Go \<open>string\<close> is a sequence of bytes; \<open>string\<close> (a list of \<open>char\<close>) models it.
  \<open>strings.HasPrefix\<close> and \<open>strings.HasSuffix\<close> compare a slice of \<open>s\<close> of the
  length of the affix, after checking that \<open>s\<close> is long enough.
\<close>

definition HasPrefix :: "string \<Rightarrow> string \<Rightarrow> bool" where
  "HasPrefix s pre = (length s \<ge> length pre \<and> take (length pre) s = pre)"

definition HasSuffix :: "string \<Rightarrow> string \<Rightarrow> bool" where
  "HasSuffix s suf = (length s \<ge> length suf \<and> drop (length s - length suf) s = suf)"

text \<open>
  \<open>strings.Contains(s, sep)\<close> and \<open>strings.Split(s, sep)\<close> for a separator of one byte,
  which is how \<open>matchGlob\<close> calls them (\<open>sep = "*"\<close>). \<open>Split\<close> cuts \<open>s\<close> at the first
  separator and goes on with what follows it; the text after the last separator is the
  last part, so a string with \<open>n\<close> separators yields \<open>n + 1\<close> parts.
\<close>

definition Contains :: "string \<Rightarrow> char \<Rightarrow> bool" where
  "Contains s sep = (sep \<in> set s)"

function Split :: "string \<Rightarrow> char \<Rightarrow> string list" where
  "Split s sep =
     (if Contains s sep
      then takeWhile (\<lambda>c. c \<noteq> sep) s # Split (tl (dropWhile (\<lambda>c. c \<noteq> sep) s)) sep
      else [s])"
  by pat_completeness auto
termination
proof (relation "measure (\<lambda>(s, sep). length s)")
  show "wf (measure (\<lambda>(s, sep). length s))" by simp
next
  fix s :: string and sep :: char
  assume "Contains s sep"
  then have "dropWhile (\<lambda>c. c \<noteq> sep) s \<noteq> []" by (simp add: Contains_def)
  then have "length (tl (dropWhile (\<lambda>c. c \<noteq> sep) s)) < length (dropWhile (\<lambda>c. c \<noteq> sep) s)"
    by simp
  also have "\<dots> \<le> length s" by (rule length_dropWhile_le)
  finally show "((tl (dropWhile (\<lambda>c. c \<noteq> sep) s), sep), (s, sep)) \<in> measure (\<lambda>(s, sep). length s)"
    by simp
qed

declare Split.simps [simp del]

definition matchGlob :: "string \<Rightarrow> string \<Rightarrow> bool" where
  "matchGlob pattern s =
     (if pattern = [] then s = []
      else if Contains pattern (CHR ''*'') then
        (let parts = Split pattern (CHR ''*'') in
         if length parts = 2 then HasPrefix s (parts ! 0) \<and> HasSuffix s (parts ! 1)
         else pattern = s)
      else pattern = s)"

text \<open>
  The two loops of \<open>MatchFilter\<close>. The first runs over the include patterns with the flag
  \<open>included\<close> and stops at the first match; the second returns \<open>false\<close> at the first
  exclude pattern that matches.
\<close>

fun include_loop :: "string \<Rightarrow> string list \<Rightarrow> bool \<Rightarrow> bool" where
  "include_loop name [] included = included"
| "include_loop name (pattern # rest) included =
     (if matchGlob pattern name then True else include_loop name rest included)"

fun exclude_loop :: "string \<Rightarrow> string list \<Rightarrow> bool" where
  "exclude_loop name [] = True"
| "exclude_loop name (pattern # rest) =
     (if matchGlob pattern name then False else exclude_loop name rest)"

definition MatchFilter :: "string \<Rightarrow> string list \<Rightarrow> string list \<Rightarrow> bool" where
  "MatchFilter name incl excl =
     (let included = include_loop name incl (length incl = 0)
      in if \<not> included then False else exclude_loop name excl)"

section \<open>Circuit breaker (src/internal/collector/mikrotik/api/client.go)\<close>

text \<open>
  A \<open>time.Time\<close> is modelled by the number of nanoseconds since the zero \<open>Time\<close>, a
  \<open>time.Duration\<close> by a number of nanoseconds. The reading of \<open>time.Now()\<close> is an
  argument \<open>now\<close> of every operation that takes one, \<open>time.Since t\<close> is \<open>now - t\<close>.
  The mutex only serialises the operations, which are modelled as atomic steps on the
  record of the breaker's fields. The counters are Go \<open>int\<close>s; they count failures
  one at a time and stay far from the largest \<open>int\<close>, so \<open>int\<close> stands for them.
\<close>

type_synonym Time = int
type_synonym Duration = int

datatype circuitState = circuitClosed | circuitOpen | circuitHalfOpen

record circuitBreaker =
  failures :: int
  maxFailures :: int
  state :: circuitState
  lastFailure :: Time
  resetTimeout :: Duration
  halfOpenAttempts :: int

definition newCircuitBreaker :: "int \<Rightarrow> Duration \<Rightarrow> circuitBreaker" where
  "newCircuitBreaker maxFailures' resetTimeout' =
     \<lparr>failures = 0, maxFailures = maxFailures', state = circuitClosed, lastFailure = 0,
      resetTimeout = resetTimeout', halfOpenAttempts = 0\<rparr>"

definition canAttempt :: "Time \<Rightarrow> circuitBreaker \<Rightarrow> bool \<times> circuitBreaker" where
  "canAttempt now cb =
     (case state cb of
        circuitClosed \<Rightarrow> (True, cb)
      | circuitOpen \<Rightarrow>
          if now - lastFailure cb > resetTimeout cb
          then (True, cb\<lparr>state := circuitHalfOpen, halfOpenAttempts := 0\<rparr>)
          else (False, cb)
      | circuitHalfOpen \<Rightarrow> (halfOpenAttempts cb < 1, cb))"

definition recordSuccess :: "circuitBreaker \<Rightarrow> circuitBreaker" where
  "recordSuccess cb = cb\<lparr>failures := 0, state := circuitClosed\<rparr>"

definition recordFailure :: "Time \<Rightarrow> circuitBreaker \<Rightarrow> circuitBreaker" where
  "recordFailure now cb =
     (let cb1 = cb\<lparr>failures := failures cb + 1, lastFailure := now\<rparr>
      in if state cb1 = circuitHalfOpen then cb1\<lparr>state := circuitOpen\<rparr>
         else if failures cb1 \<ge> maxFailures cb1 then cb1\<lparr>state := circuitOpen\<rparr>
         else cb1)"

definition reset :: "circuitBreaker \<Rightarrow> circuitBreaker" where
  "reset cb = cb\<lparr>failures := 0, state := circuitClosed\<rparr>"

text \<open>
  Sequences of breaker operations, each with the clock reading at which it runs. The
  run keeps the answers of the \<open>canAttempt\<close> calls in order.
\<close>

datatype cb_op = CanAttempt Time | RecordSuccess | RecordFailure Time | Reset

fun run_ops :: "cb_op list \<Rightarrow> circuitBreaker \<Rightarrow> bool list \<times> circuitBreaker" where
  "run_ops [] cb = ([], cb)"
| "run_ops (CanAttempt now # ops) cb =
     (let (ok, cb') = canAttempt now cb; (oks, cb'') = run_ops ops cb' in (ok # oks, cb''))"
| "run_ops (RecordSuccess # ops) cb = run_ops ops (recordSuccess cb)"
| "run_ops (RecordFailure now # ops) cb = run_ops ops (recordFailure now cb)"
| "run_ops (Reset # ops) cb = run_ops ops (reset cb)"

section \<open>Errors (src/internal/collector/mikrotik/api/errors.go)\<close>

datatype ErrType =
    ErrTypeConnection | ErrTypeAuth | ErrTypeTrap | ErrTypeFatal
  | ErrTypeTimeout | ErrTypeCircuitOpen | ErrTypeProtocol

text \<open>
  Go \<open>error\<close> values. \<open>APIError t msg cat w tmp\<close> is an \<open>*APIError\<close> with the fields
  \<open>Type\<close>, \<open>Message\<close>, \<open>Category\<close>, \<open>Wrapped\<close> and \<open>Temporary\<close>; \<open>Errorf msg e\<close> is
  \<open>fmt.Errorf(msg + ": %w", e)\<close>. The other constructors are errors of the standard
  library that reach the client. A \<open>nil\<close> error is \<open>None\<close>.
\<close>

datatype go_error =
    IOError io_error
  | NetError string
  | HexError
  | ContextError
  | Errorf string go_error
  | APIError ErrType string string "go_error option" bool

definition ErrNotConnected :: go_error where
  "ErrNotConnected = APIError ErrTypeConnection ''not connected to router'' [] None False"

definition ErrConnectionClosed :: go_error where
  "ErrConnectionClosed = APIError ErrTypeConnection ''connection closed'' [] None True"

definition ErrCircuitOpen :: go_error where
  "ErrCircuitOpen = APIError ErrTypeCircuitOpen ''circuit breaker is open'' [] None True"

definition NewConnectionError :: "string \<Rightarrow> go_error option \<Rightarrow> go_error" where
  "NewConnectionError msg err = APIError ErrTypeConnection msg [] err True"

definition NewAuthError :: "string \<Rightarrow> go_error" where
  "NewAuthError msg = APIError ErrTypeAuth msg [] None False"

definition NewProtocolError :: "string \<Rightarrow> go_error option \<Rightarrow> go_error" where
  "NewProtocolError msg err = APIError ErrTypeProtocol msg [] err False"

text \<open>
  \<open>errors.As(err, &apiErr)\<close>: the first \<open>*APIError\<close> on the chain of \<open>Unwrap\<close>, which is
  \<open>err\<close> itself when it is one. Only its \<open>Type\<close> is read by the callers.
\<close>

fun errors_As_APIError :: "go_error \<Rightarrow> ErrType option" where
  "errors_As_APIError (APIError t msg cat w tmp) = Some t"
| "errors_As_APIError (Errorf msg e) = errors_As_APIError e"
| "errors_As_APIError (IOError e) = None"
| "errors_As_APIError (NetError s) = None"
| "errors_As_APIError HexError = None"
| "errors_As_APIError ContextError = None"

definition IsAuthError :: "go_error \<Rightarrow> bool" where
  "IsAuthError err =
     (case errors_As_APIError err of Some t \<Rightarrow> t = ErrTypeAuth | None \<Rightarrow> False)"

section \<open>Sentences and replies (src/internal/collector/mikrotik/collector.go: Sentence, Reply)\<close>

record Sentence =
  Word :: string
  Words :: "string list"

definition NewSentence :: "string \<Rightarrow> Sentence" where
  "NewSentence command = \<lparr>Word = command, Words = []\<rparr>"

definition AddAttribute :: "Sentence \<Rightarrow> string \<Rightarrow> string \<Rightarrow> Sentence" where
  "AddAttribute s name val = s\<lparr>Words := Words s @ [''='' @ name @ ''='' @ val]\<rparr>"

record Reply =
  Type :: string
  Data :: "string \<rightharpoonup> string"
  Tag :: string

definition IsDone :: "Reply \<Rightarrow> bool" where "IsDone r = (Type r = ''!done'')"
definition IsTrap :: "Reply \<Rightarrow> bool" where "IsTrap r = (Type r = ''!trap'')"
definition IsFatal :: "Reply \<Rightarrow> bool" where "IsFatal r = (Type r = ''!fatal'')"
definition IsData :: "Reply \<Rightarrow> bool" where "IsData r = (Type r = ''!re'')"

definition GetMessage :: "Reply \<Rightarrow> string" where
  "GetMessage r = (case Data r ''message'' of Some msg \<Rightarrow> msg | None \<Rightarrow> [])"

text \<open>Reading a Go map at a key that may be missing gives the empty string.\<close>

definition index_or_empty :: "(string \<rightharpoonup> string) \<Rightarrow> string \<Rightarrow> string" where
  "index_or_empty m k = (case m k of Some v \<Rightarrow> v | None \<Rightarrow> [])"

definition isTrapTemporary :: "Reply \<Rightarrow> bool" where
  "isTrapTemporary reply =
     (let category = index_or_empty (Data reply) ''category''
      in if category = ''1'' then True
         else if category = ''2'' then True
         else if category = ''3'' then True
         else False)"

definition NewTrapError :: "Reply \<Rightarrow> go_error" where
  "NewTrapError reply =
     (let msg = GetMessage reply;
          msg = (if msg = [] then ''unknown error'' else msg)
      in APIError ErrTypeTrap msg (index_or_empty (Data reply) ''category'') None
           (isTrapTemporary reply))"

definition NewFatalError :: "Reply \<Rightarrow> go_error" where
  "NewFatalError reply =
     (let msg = GetMessage reply;
          msg = (if msg = [] then ''fatal error'' else msg)
      in APIError ErrTypeFatal msg [] None False)"

section \<open>Utility parsers (src/internal/collector/mikrotik/pppoe.go: ParseUptime, ParseSpeed, ParseInt64, ParseMemory)\<close>

text \<open>
  Strings are byte strings of ASCII text, as RouterOS sends them. \<open>strings.TrimSpace\<close>
  removes the ASCII white space at both ends and \<open>strings.ToLower\<close> maps \<open>A\<close> to \<open>Z\<close> to
  lower case; bytes outside ASCII are left alone. In a regular expression \<open>\d\<close> is an
  ASCII digit and \<open>\s\<close> is one of tab, newline, form feed, carriage return and space.
\<close>

definition is_digit :: "char \<Rightarrow> bool" where
  "is_digit c = (c \<in> set ''0123456789'')"

definition digit_value :: "char \<Rightarrow> int" where
  "digit_value c = int (of_char c) - 48"

definition decimal :: "string \<Rightarrow> int" where
  "decimal ds = foldl (\<lambda>n c. 10 * n + digit_value c) 0 ds"

definition is_space :: "char \<Rightarrow> bool" where
  "is_space c = (of_char c \<in> set [9, 10, 11, 12, 13, 32 :: nat])"


definition TrimSpace :: "string \<Rightarrow> string" where
  "TrimSpace s = rev (dropWhile is_space (rev (dropWhile is_space s)))"


text \<open>
  \<open>strconv.ParseInt(s, 10, 64)\<close>: an optional sign and at least one digit, nothing
  else; \<open>None\<close> stands for a returned error (bad syntax, or a value outside
  \<open>int64\<close>).
\<close>

definition strconv_ParseInt :: "string \<Rightarrow> int option" where
  "strconv_ParseInt s =
     (let neg = (s \<noteq> [] \<and> hd s = CHR ''-'');
          ds = (if s \<noteq> [] \<and> (hd s = CHR ''+'' \<or> hd s = CHR ''-'') then tl s else s)
      in if ds = [] \<or> \<not> list_all is_digit ds then None
         else if \<not> neg \<and> decimal ds \<ge> 2 ^ 63 then None
         else if neg \<and> decimal ds > 2 ^ 63 then None
         else Some (if neg then - decimal ds else decimal ds))"

definition ParseInt64 :: "string \<Rightarrow> int" where
  "ParseInt64 s =
     (let s = TrimSpace s
      in if s = [] then 0
         else case strconv_ParseInt s of None \<Rightarrow> 0 | Some v \<Rightarrow> v)"

text \<open>
  \<open>re.FindAllStringSubmatch(uptime, -1)\<close> for the pattern \<open>(\d+)([wdhms])\<close>: the
  successive leftmost matches, each a maximal run of digits directly followed by a unit
  letter, as the pair of its two groups. The scan carries the digits of the run it is in.
\<close>

fun FindAllComponents :: "string \<Rightarrow> string \<Rightarrow> (string \<times> char) list" where
  "FindAllComponents digits [] = []"
| "FindAllComponents digits (c # cs) =
     (if is_digit c then FindAllComponents (digits @ [c]) cs
      else if digits \<noteq> [] \<and> c \<in> set ''wdhms'' then (digits, c) # FindAllComponents [] cs
      else FindAllComponents [] cs)"

text \<open>
  The body of the loop of \<open>ParseUptime\<close> for one match: what is added to \<open>total\<close>, in
  \<open>int64\<close> arithmetic. A number that \<open>strconv.ParseInt\<close> rejects is skipped.
\<close>

definition component_seconds :: "string \<times> char \<Rightarrow> 64 word" where
  "component_seconds m =
     (case strconv_ParseInt (fst m) of
        None \<Rightarrow> 0
      | Some v \<Rightarrow>
          let val = (word_of_int v :: 64 word)
          in if snd m = CHR ''w'' then val * 7 * 24 * 60 * 60
             else if snd m = CHR ''d'' then val * 24 * 60 * 60
             else if snd m = CHR ''h'' then val * 60 * 60
             else if snd m = CHR ''m'' then val * 60
             else if snd m = CHR ''s'' then val
             else 0)"

definition ParseUptime :: "string \<Rightarrow> int" where
  "ParseUptime uptime =
     (if uptime = [] then 0
      else sint (foldl (\<lambda>total m. total + component_seconds m) 0
                   (FindAllComponents [] (TrimSpace uptime))))"









section \<open>NAT connection sampling (src/internal/collector/mikrotik/nat.go: collectNAT)\<close>

record NATConnection =
  Protocol :: string
  SrcAddress :: string
  SrcPort :: int
  DstAddress :: string
  DstPort :: int
  ReplyAddr :: string
  ReplyPort :: int
  TCPState :: string
  Timeout :: int
  Assured :: bool
  Confirmed :: bool
  Dying :: bool
  FastTracked :: bool
  GREKey :: string
  GREVersion :: string
  ICMPCode :: int
  ICMPType :: int
  ICMPId :: int
  RxBytes :: int
  TxBytes :: int
  RxPackets :: int
  TxPackets :: int

record NATStats =
  TotalConnections :: int
  SampledCount :: int
  TCPConnections :: int
  UDPConnections :: int
  ICMPConnections :: int
  OtherConnections :: int
  MaxEntries :: int
  TotalTCPEntries :: int
  TotalUDPEntries :: int
  TotalICMPEntries :: int

text \<open>
  The \<open>NAT\<close> block of the collector's configuration. \<open>SampleRate\<close> is a \<open>float64\<close>; it
  and the numbers drawn by \<open>rand.Float64()\<close> are only compared, which is exact, so the
  rational numbers they stand for model them.
\<close>

record NATConfig =
  SamplingEnabled :: bool
  SampleRate :: rat
  MaxConnections :: int

text \<open>\<open>parseAddressPort\<close> cuts \<open>address:port\<close> at the last colon.\<close>

definition parseAddressPort :: "string \<Rightarrow> string \<times> int" where
  "parseAddressPort s =
     (if CHR '':'' \<in> set s
      then (rev (tl (dropWhile (\<lambda>c. c \<noteq> CHR '':'') (rev s))),
            ParseInt64 (rev (takeWhile (\<lambda>c. c \<noteq> CHR '':'') (rev s))))
      else (s, 0))"

definition parseTimeout :: "string \<Rightarrow> int" where
  "parseTimeout s = ParseUptime s"

definition parseNATConnection :: "(string \<rightharpoonup> string) \<Rightarrow> NATConnection" where
  "parseNATConnection conn =
     (let get = index_or_empty conn;
          natConn = \<lparr>Protocol = get ''protocol'', SrcAddress = get ''src-address'', SrcPort = 0,
                     DstAddress = get ''dst-address'', DstPort = 0,
                     ReplyAddr = get ''reply-src-address'', ReplyPort = 0,
                     TCPState = get ''tcp-state'', Timeout = parseTimeout (get ''timeout''),
                     Assured = (get ''assured'' = ''true''),
                     Confirmed = (get ''confirmed'' = ''true''),
                     Dying = (get ''dying'' = ''true''),
                     FastTracked = (get ''fasttrack'' = ''true''),
                     GREKey = get ''gre-key'', GREVersion = get ''gre-version'',
                     ICMPCode = 0, ICMPType = 0, ICMPId = 0,
                     RxBytes = 0, TxBytes = 0, RxPackets = 0, TxPackets = 0\<rparr>;
          natConn = natConn\<lparr>SrcAddress := fst (parseAddressPort (get ''src-address'')),
                             SrcPort := snd (parseAddressPort (get ''src-address'')),
                             DstAddress := fst (parseAddressPort (get ''dst-address'')),
                             DstPort := snd (parseAddressPort (get ''dst-address'')),
                             ReplyAddr := fst (parseAddressPort (get ''reply-src-address'')),
                             ReplyPort := snd (parseAddressPort (get ''reply-src-address''))\<rparr>;
          natConn = natConn\<lparr>ICMPCode := ParseInt64 (get ''icmp-code''),
                             ICMPType := ParseInt64 (get ''icmp-type''),
                             ICMPId := ParseInt64 (get ''icmp-id'')\<rparr>;
          natConn = (if get ''orig-bytes'' \<noteq> []
                     then natConn\<lparr>TxBytes := ParseInt64 (get ''orig-bytes'')\<rparr> else natConn);
          natConn = (if get ''repl-bytes'' \<noteq> []
                     then natConn\<lparr>RxBytes := ParseInt64 (get ''repl-bytes'')\<rparr> else natConn);
          natConn = (if get ''orig-packets'' \<noteq> []
                     then natConn\<lparr>TxPackets := ParseInt64 (get ''orig-packets'')\<rparr> else natConn);
          natConn = (if get ''repl-packets'' \<noteq> []
                     then natConn\<lparr>RxPackets := ParseInt64 (get ''repl-packets'')\<rparr> else natConn)
      in natConn)"

definition count_protocol :: "NATConnection \<Rightarrow> NATStats \<Rightarrow> NATStats" where
  "count_protocol natConn stats =
     (if Protocol natConn = ''tcp'' then stats\<lparr>TCPConnections := TCPConnections stats + 1\<rparr>
      else if Protocol natConn = ''udp'' then stats\<lparr>UDPConnections := UDPConnections stats + 1\<rparr>
      else if Protocol natConn = ''icmp''
      then stats\<lparr>ICMPConnections := ICMPConnections stats + 1\<rparr>
      else stats\<lparr>OtherConnections := OtherConnections stats + 1\<rparr>)"

text \<open>
  The loop \<open>for i, conn := range connections\<close> of \<open>collectNAT\<close>, at index \<open>i\<close> with the
  rows from \<open>i\<close> on. \<open>draw i\<close> is the number \<open>rand.Float64()\<close> returns when the loop
  draws one at row \<open>i\<close>. The last component of the result counts the rows the loop
  has looked at; the code keeps no such counter, it is there to say how far the scan
  went.
\<close>

fun collectNAT_loop ::
    "NATConfig \<Rightarrow> int \<Rightarrow> (nat \<Rightarrow> rat) \<Rightarrow> nat \<Rightarrow> (string \<rightharpoonup> string) list \<Rightarrow>
     NATConnection list \<Rightarrow> NATStats \<Rightarrow> nat \<Rightarrow> NATConnection list \<times> NATStats \<times> nat" where
  "collectNAT_loop cfg maxConns draw i [] result stats scanned = (result, stats, scanned)"
| "collectNAT_loop cfg maxConns draw i (conn # rest) result stats scanned =
     (if SamplingEnabled cfg \<and> SampleRate cfg < 1 \<and> draw i > SampleRate cfg
      then collectNAT_loop cfg maxConns draw (i + 1) rest result stats (scanned + 1)
      else if int (length result) \<ge> maxConns then (result, stats, scanned + 1)
      else
        let natConn = parseNATConnection conn;
            stats = count_protocol natConn stats;
            result = result @ [natConn]
        in if i > 100000 then (result, stats, scanned + 1)
           else collectNAT_loop cfg maxConns draw (i + 1) rest result stats (scanned + 1))"

text \<open>
  \<open>collectNAT\<close>, given what the two calls on the client returned: \<open>ctStats\<close> from
  \<open>RunOne\<close> on \<open>/ip/firewall/connection/tracking/print\<close> and \<open>connections\<close> from \<open>Run\<close> on
  \<open>/ip/firewall/connection/print\<close>.
\<close>

definition collectNAT ::
    "NATConfig \<Rightarrow> (nat \<Rightarrow> rat) \<Rightarrow> go_error + (string \<rightharpoonup> string) option \<Rightarrow>
     go_error + (string \<rightharpoonup> string) list \<Rightarrow>
     NATConnection list \<times> NATStats \<times> go_error option \<times> nat" where
  "collectNAT cfg draw ctStats connections =
     (let stats = \<lparr>TotalConnections = 0, SampledCount = 0, TCPConnections = 0,
                   UDPConnections = 0, ICMPConnections = 0, OtherConnections = 0,
                   MaxEntries = 0, TotalTCPEntries = 0, TotalUDPEntries = 0,
                   TotalICMPEntries = 0\<rparr>;
          stats = (case ctStats of
                     Inr (Some row) \<Rightarrow>
                       stats\<lparr>MaxEntries := ParseInt64 (index_or_empty row ''max-entries''),
                             TotalTCPEntries := ParseInt64 (index_or_empty row ''total-tcp-entries''),
                             TotalUDPEntries := ParseInt64 (index_or_empty row ''total-udp-entries''),
                             TotalICMPEntries :=
                               ParseInt64 (index_or_empty row ''total-icmp-entries'')\<rparr>
                   | Inr None \<Rightarrow> stats
                   | Inl err \<Rightarrow> stats)
      in case connections of
           Inl err \<Rightarrow> ([], stats, Some err, 0)
         | Inr rows \<Rightarrow>
             let stats = stats\<lparr>TotalConnections := int (length rows)\<rparr>;
                 maxConns = (if MaxConnections cfg \<le> 0 then 10000 else MaxConnections cfg);
                 (result, stats, scanned) = collectNAT_loop cfg maxConns draw 0 rows [] stats 0
             in (result, stats\<lparr>SampledCount := int (length result)\<rparr>, None, scanned))"

section \<open>Interface rate tracker (src/internal/collector/mikrotik/interfaces.go: updateAndCalculateRates)\<close>

text \<open>
  The tracker's map from interface names to the last observation. Its lock only
  serialises the calls. \<open>time.Now()\<close> is the argument \<open>now\<close>; the zero \<open>Time\<close> is \<open>0\<close>.
  The rates are \<open>float64\<close> quotients; they are modelled by the exact rational
  quotients, and \<open>Seconds d\<close> is the duration \<open>d\<close> in seconds.
\<close>

record interfaceState =
  rxBytes :: uint64
  txBytes :: uint64
  rxPackets :: uint64
  txPackets :: uint64
  timestamp :: Time

record interfaceTracker =
  states :: "string \<rightharpoonup> interfaceState"

definition newInterfaceTracker :: interfaceTracker where
  "newInterfaceTracker = \<lparr>states = Map.empty\<rparr>"

definition IsZero :: "Time \<Rightarrow> bool" where
  "IsZero t = (t = 0)"

definition Seconds :: "Duration \<Rightarrow> rat" where
  "Seconds d = of_int d / 1000000000"

definition float64_of_uint64 :: "uint64 \<Rightarrow> rat" where
  "float64_of_uint64 x = of_nat (unat x)"

definition updateAndCalculateRates ::
    "Time \<Rightarrow> interfaceTracker \<Rightarrow> string \<Rightarrow> uint64 \<Rightarrow> uint64 \<Rightarrow> uint64 \<Rightarrow> uint64 \<Rightarrow>
     (rat \<times> rat \<times> rat \<times> rat) \<times> interfaceTracker" where
  "updateAndCalculateRates now t name rxBytes' txBytes' rxPkts txPkts =
     (let rates =
            (case states t name of
               None \<Rightarrow> (0, 0, 0, 0)
             | Some prev \<Rightarrow>
                 if \<not> IsZero (timestamp prev) then
                   (let elapsed = Seconds (now - timestamp prev)
                    in if elapsed > 0 then
                         (let rxDelta = Handle64BitCounterWrap rxBytes' (rxBytes prev);
                              txDelta = Handle64BitCounterWrap txBytes' (txBytes prev);
                              rxPktDelta = Handle64BitCounterWrap rxPkts (rxPackets prev);
                              txPktDelta = Handle64BitCounterWrap txPkts (txPackets prev)
                          in (float64_of_uint64 rxDelta / elapsed,
                              float64_of_uint64 txDelta / elapsed,
                              float64_of_uint64 rxPktDelta / elapsed,
                              float64_of_uint64 txPktDelta / elapsed))
                       else (0, 0, 0, 0))
                 else (0, 0, 0, 0))
      in (rates,
          t\<lparr>states := (states t)(name \<mapsto>
               \<lparr>rxBytes = rxBytes', txBytes = txBytes', rxPackets = rxPkts,
                txPackets = txPkts, timestamp = now\<rparr>)\<rparr>))"

text \<open>
  A history of calls: each entry holds the arguments of one call of
  \<open>updateAndCalculateRates\<close> and the clock reading at which it ran.
\<close>

record observation =
  ifname :: string
  rx_bytes :: uint64
  tx_bytes :: uint64
  rx_pkts :: uint64
  tx_pkts :: uint64
  seen_at :: Time

definition observe :: "observation \<Rightarrow> interfaceTracker \<Rightarrow> (rat \<times> rat \<times> rat \<times> rat) \<times> interfaceTracker" where
  "observe ob t =
     updateAndCalculateRates (seen_at ob) t (ifname ob) (rx_bytes ob) (tx_bytes ob)
       (rx_pkts ob) (tx_pkts ob)"

fun observe_all :: "observation list \<Rightarrow> interfaceTracker \<Rightarrow> interfaceTracker" where
  "observe_all [] t = t"
| "observe_all (ob # obs) t = observe_all obs (snd (observe ob t))"

text \<open>What a call stores in the map for its name.\<close>

definition recorded :: "observation \<Rightarrow> interfaceState" where
  "recorded ob =
     \<lparr>rxBytes = rx_bytes ob, txBytes = tx_bytes ob, rxPackets = rx_pkts ob,
      txPackets = tx_pkts ob, timestamp = seen_at ob\<rparr>"

text \<open>The most recent entry of a history for a name, the history being oldest first.\<close>

definition previous_observation :: "string \<Rightarrow> observation list \<Rightarrow> observation option" where
  "previous_observation name history = find (\<lambda>ob. ifname ob = name) (rev history)"

section \<open>Client: connection, authentication, commands (src/internal/collector/mikrotik/api/client.go)\<close>

text \<open>
  The network connection as the client sees it. \<open>incoming\<close> holds the sentences the
  device sends that arrive complete, in order; once they are used up every read fails
  with \<open>read_error\<close> (end of stream, a deadline that passed). \<open>writes_ok\<close> is the number
  of writes the connection still accepts, \<open>sent\<close> the sentences written so far, and
  \<open>deadline_fails\<close> tells whether \<open>SetDeadline\<close> returns an error. \<open>c.reader\<close> is the
  buffered reader on the same connection and is \<open>nil\<close> exactly when \<open>c.conn\<close> is.
\<close>

record Conn =
  incoming :: "Reply list"
  read_error :: go_error
  writes_ok :: nat
  sent :: "Sentence list"
  deadline_fails :: bool

record ClientConfig =
  Address :: string
  Username :: string
  Password :: string
  UseTLS :: bool
  Timeout :: Duration
  RetryAttempts :: int
  RetryDelay :: Duration

record Client =
  config :: ClientConfig
  conn :: "Conn option"
  connected :: bool
  circuitBreaker :: circuitBreaker

text \<open>
  A call either returns or panics: calling a method on \<open>c.conn\<close> or reading from
  \<open>c.reader\<close> while they are \<open>nil\<close> is a nil-pointer panic.
\<close>

datatype 'a outcome = Returns 'a | Panics

definition closeConn :: "Client \<Rightarrow> Client" where
  "closeConn c = c\<lparr>connected := False, conn := None\<rparr>"

definition writeSentence :: "Client \<Rightarrow> Sentence \<Rightarrow> (go_error option \<times> Client) outcome" where
  "writeSentence c sentence =
     (case conn c of
        None \<Rightarrow> Panics
      | Some cn \<Rightarrow>
          if writes_ok cn = 0
          then Returns (Some (NewConnectionError ''failed to write sentence''
                                 (Some (NetError ''write''))), c)
          else Returns (None, c\<lparr>conn := Some (cn\<lparr>writes_ok := writes_ok cn - 1,
                                                    sent := sent cn @ [sentence]\<rparr>)\<rparr>))"

text \<open>
  \<open>DecodeSentence\<close> on the connection's reader: the next complete sentence, or the read
  failure wrapped by \<open>fmt.Errorf\<close>, as both of its error returns do.
\<close>

definition DecodeSentence :: "Conn \<Rightarrow> (go_error + Reply) \<times> Conn" where
  "DecodeSentence cn =
     (case incoming cn of
        [] \<Rightarrow> (Inl (Errorf ''failed to read reply type'' (read_error cn)), cn)
      | r # rs \<Rightarrow> (Inr r, cn\<lparr>incoming := rs\<rparr>))"

definition readReply :: "Client \<Rightarrow> ((go_error + Reply) \<times> Client) outcome" where
  "readReply c =
     (case conn c of
        None \<Rightarrow> Panics
      | Some cn \<Rightarrow>
          let (res, cn') = DecodeSentence cn; c' = c\<lparr>conn := Some cn'\<rparr>
          in case res of
               Inl err \<Rightarrow>
                 if err = IOError EOF then Returns (Inl ErrConnectionClosed, closeConn c')
                 else Returns (Inl (NewProtocolError ''failed to decode reply'' (Some err)), c')
             | Inr reply \<Rightarrow> Returns (Inr reply, c'))"

text \<open>
  \<open>hex.DecodeString\<close> succeeds on strings of even length made of hexadecimal digits.
  The MD5 digest is library code: \<open>response password challenge\<close> stands for the
  hexadecimal MD5 digest of \<open>0x00\<close>, the password and the decoded challenge.
\<close>

definition is_hex_digit :: "char \<Rightarrow> bool" where
  "is_hex_digit ch =
     (let n = of_char ch :: nat
      in (48 \<le> n \<and> n \<le> 57) \<or> (97 \<le> n \<and> n \<le> 102) \<or> (65 \<le> n \<and> n \<le> 70))"

definition hex_DecodeString_ok :: "string \<Rightarrow> bool" where
  "hex_DecodeString_ok s = (even (length s) \<and> list_all is_hex_digit s)"

definition handleLegacyChallenge ::
    "(string \<Rightarrow> string \<Rightarrow> string) \<Rightarrow> Client \<Rightarrow> string \<Rightarrow> (go_error option \<times> Client) outcome" where
  "handleLegacyChallenge response c challenge =
     (if \<not> hex_DecodeString_ok challenge
      then Returns (Some (NewProtocolError ''invalid challenge format'' (Some HexError)), c)
      else
        let sentence = NewSentence ''/login'';
            sentence = AddAttribute sentence ''name'' (Username (config c));
            sentence = AddAttribute sentence ''response''
                         (''00'' @ response (Password (config c)) challenge)
        in case writeSentence c sentence of
             Panics \<Rightarrow> Panics
           | Returns (Some err, c1) \<Rightarrow> Returns (Some err, c1)
           | Returns (None, c1) \<Rightarrow>
               (case readReply c1 of
                  Panics \<Rightarrow> Panics
                | Returns (Inl err, c2) \<Rightarrow> Returns (Some err, c2)
                | Returns (Inr reply, c2) \<Rightarrow>
                    if IsTrap reply then Returns (Some (NewAuthError (GetMessage reply)), c2)
                    else if \<not> IsDone reply
                    then Returns (Some (NewProtocolError ''unexpected login response'' None), c2)
                    else Returns (None, c2)))"

definition tryNewLogin ::
    "(string \<Rightarrow> string \<Rightarrow> string) \<Rightarrow> Client \<Rightarrow> (go_error option \<times> Client) outcome" where
  "tryNewLogin response c =
     (let sentence = NewSentence ''/login'';
          sentence = AddAttribute sentence ''name'' (Username (config c));
          sentence = AddAttribute sentence ''password'' (Password (config c))
      in case writeSentence c sentence of
           Panics \<Rightarrow> Panics
         | Returns (Some err, c1) \<Rightarrow> Returns (Some err, c1)
         | Returns (None, c1) \<Rightarrow>
             (case readReply c1 of
                Panics \<Rightarrow> Panics
              | Returns (Inl err, c2) \<Rightarrow> Returns (Some err, c2)
              | Returns (Inr reply, c2) \<Rightarrow>
                  if IsTrap reply then Returns (Some (NewAuthError (GetMessage reply)), c2)
                  else if \<not> IsDone reply then
                    (case Data reply ''ret'' of
                       Some ret \<Rightarrow> handleLegacyChallenge response c2 ret
                     | None \<Rightarrow>
                         Returns (Some (NewProtocolError ''unexpected login response'' None), c2))
                  else Returns (None, c2)))"

definition tryLegacyLogin ::
    "(string \<Rightarrow> string \<Rightarrow> string) \<Rightarrow> Client \<Rightarrow> (go_error option \<times> Client) outcome" where
  "tryLegacyLogin response c =
     (let sentence = NewSentence ''/login''
      in case writeSentence c sentence of
           Panics \<Rightarrow> Panics
         | Returns (Some err, c1) \<Rightarrow> Returns (Some err, c1)
         | Returns (None, c1) \<Rightarrow>
             (case readReply c1 of
                Panics \<Rightarrow> Panics
              | Returns (Inl err, c2) \<Rightarrow> Returns (Some err, c2)
              | Returns (Inr reply, c2) \<Rightarrow>
                  if IsTrap reply then Returns (Some (NewAuthError (GetMessage reply)), c2)
                  else if \<not> IsDone reply
                  then Returns (Some (NewProtocolError ''unexpected login response'' None), c2)
                  else
                    (case Data reply ''ret'' of
                       None \<Rightarrow> Returns (Some (NewProtocolError ''no challenge received'' None), c2)
                     | Some challenge \<Rightarrow> handleLegacyChallenge response c2 challenge)))"

definition authenticate ::
    "(string \<Rightarrow> string \<Rightarrow> string) \<Rightarrow> Client \<Rightarrow> (go_error option \<times> Client) outcome" where
  "authenticate response c =
     (case tryNewLogin response c of
        Panics \<Rightarrow> Panics
      | Returns (None, c1) \<Rightarrow> Returns (None, c1)
      | Returns (Some err, c1) \<Rightarrow> tryLegacyLogin response c1)"

text \<open>
  \<open>Connect\<close>. Each dial of the retry loop meets the next entry of \<open>dials\<close>: a failure
  of the dialer, or a fresh connection; a network with no entry left refuses the dial.
  \<open>ctx_done attempt\<close> tells whether the wait before that attempt ends with the context
  done. \<open>now0\<close> is the clock reading when the breaker is asked, \<open>now1\<close> when it records
  a failure. The result carries the dials not used, so the number of attempts made
  can be read off.
\<close>

datatype dial = DialFails go_error | DialOk Conn

record connect_env =
  ctx_done :: "nat \<Rightarrow> bool"
  now0 :: Time
  now1 :: Time
  response :: "string \<Rightarrow> string \<Rightarrow> string"

definition connect :: "Client \<Rightarrow> dial list \<Rightarrow> go_error option \<times> Client \<times> dial list" where
  "connect c dials =
     (case dials of
        [] \<Rightarrow> (Some (NewConnectionError ''failed to connect'' (Some (NetError ''dial''))), c, [])
      | DialFails err # rest \<Rightarrow>
          (Some (NewConnectionError ''failed to connect'' (Some err)), c, rest)
      | DialOk cn # rest \<Rightarrow> (None, c\<lparr>conn := Some cn\<rparr>, rest))"

text \<open>
  The loop \<open>for attempt := 0; attempt <= RetryAttempts; attempt++\<close>, by the number of
  iterations left; \<open>retry_loop env 0\<close> is the code after the loop.
\<close>

fun retry_loop ::
    "connect_env \<Rightarrow> nat \<Rightarrow> nat \<Rightarrow> go_error option \<Rightarrow> Client \<Rightarrow> dial list \<Rightarrow>
     (go_error option \<times> Client \<times> dial list) outcome" where
  "retry_loop env 0 attempt lastErr c dials =
     Returns (lastErr, c\<lparr>circuitBreaker := recordFailure (now1 env) (circuitBreaker c)\<rparr>, dials)"
| "retry_loop env (Suc left) attempt lastErr c dials =
     (if attempt > 0 \<and> ctx_done env attempt then Returns (Some ContextError, c, dials)
      else
        case connect c dials of
          (Some err, c1, dials1) \<Rightarrow> retry_loop env left (attempt + 1) (Some err) c1 dials1
        | (None, c1, dials1) \<Rightarrow>
            (case authenticate (response env) c1 of
               Panics \<Rightarrow> Panics
             | Returns (Some err, c2) \<Rightarrow>
                 let c3 = closeConn c2
                 in if IsAuthError err
                    then Returns (Some err,
                           c3\<lparr>circuitBreaker := recordFailure (now1 env) (circuitBreaker c3)\<rparr>, dials1)
                    else retry_loop env left (attempt + 1) (Some err) c3 dials1
             | Returns (None, c2) \<Rightarrow>
                 Returns (None,
                   c2\<lparr>connected := True, circuitBreaker := recordSuccess (circuitBreaker c2)\<rparr>, dials1)))"

definition Connect ::
    "connect_env \<Rightarrow> Client \<Rightarrow> dial list \<Rightarrow> (go_error option \<times> Client \<times> dial list) outcome" where
  "Connect env c dials =
     (if connected c then Returns (None, c, dials)
      else
        let (ok, cb) = canAttempt (now0 env) (circuitBreaker c); c0 = c\<lparr>circuitBreaker := cb\<rparr>
        in if \<not> ok then Returns (Some ErrCircuitOpen, c0, dials)
           else retry_loop env (nat (RetryAttempts (config c) + 1)) 0 None c0 dials)"

text \<open>
  \<open>readAllReplies\<close> reads until a reply is \<open>!done\<close> or \<open>!fatal\<close> or a read fails; on a
  failure it returns the replies read so far together with the error. Every reply read
  takes one sentence off the connection, which bounds the loop.
\<close>

definition unread :: "Client \<Rightarrow> nat" where
  "unread c = (case conn c of None \<Rightarrow> 0 | Some cn \<Rightarrow> length (incoming cn))"

function readAllReplies_loop ::
    "Client \<Rightarrow> Reply list \<Rightarrow> (Reply list \<times> go_error option \<times> Client) outcome" where
  "readAllReplies_loop c replies =
     (case readReply c of
        Panics \<Rightarrow> Panics
      | Returns (Inl err, c1) \<Rightarrow> Returns (replies, Some err, c1)
      | Returns (Inr reply, c1) \<Rightarrow>
          if IsDone reply \<or> IsFatal reply then Returns (replies @ [reply], None, c1)
          else readAllReplies_loop c1 (replies @ [reply]))"
  by pat_completeness auto
termination
  by (relation "measure (\<lambda>(c, replies). unread c)")
    (auto simp: readReply_def DecodeSentence_def unread_def Let_def
      split: option.splits list.splits if_splits)

declare readAllReplies_loop.simps [simp del]

definition readAllReplies :: "Client \<Rightarrow> (Reply list \<times> go_error option \<times> Client) outcome" where
  "readAllReplies c = readAllReplies_loop c []"

definition Execute ::
    "Client \<Rightarrow> Sentence \<Rightarrow> (Reply list \<times> go_error option \<times> Client) outcome" where
  "Execute c sentence =
     (if \<not> connected c then Returns ([], Some ErrNotConnected, c)
      else
        case (if Timeout (config c) > 0
              then (case conn c of
                      None \<Rightarrow> Panics
                    | Some cn \<Rightarrow>
                        if deadline_fails cn
                        then Returns (Some (NewConnectionError ''failed to set deadline''
                                              (Some (NetError ''set deadline''))))
                        else Returns None)
              else Returns None) of
          Panics \<Rightarrow> Panics
        | Returns (Some err) \<Rightarrow> Returns ([], Some err, c)
        | Returns None \<Rightarrow>
            (case writeSentence c sentence of
               Panics \<Rightarrow> Panics
             | Returns (Some err, c1) \<Rightarrow> Returns ([], Some err, c1)
             | Returns (None, c1) \<Rightarrow> readAllReplies c1))"

text \<open>
  \<open>Run\<close>. \<open>args\<close> lists the entries of the argument map in the order in which the
  \<open>range\<close> loop visits them. The loop over the replies returns at the first trap or
  fatal reply and collects the attribute maps of the data replies otherwise.
\<close>

fun Run_loop ::
    "Reply list \<Rightarrow> (string \<rightharpoonup> string) list \<Rightarrow> Client \<Rightarrow>
     (go_error + (string \<rightharpoonup> string) list) \<times> Client" where
  "Run_loop [] result c = (Inr result, c)"
| "Run_loop (reply # replies) result c =
     (if IsTrap reply then (Inl (NewTrapError reply), c)
      else if IsFatal reply then (Inl (NewFatalError reply), closeConn c)
      else if IsData reply then Run_loop replies (result @ [Data reply]) c
      else Run_loop replies result c)"

definition Run_sentence :: "string \<Rightarrow> (string \<times> string) list \<Rightarrow> Sentence" where
  "Run_sentence command args =
     foldl (\<lambda>sentence (k, v). AddAttribute sentence k v) (NewSentence command) args"

definition Run ::
    "Client \<Rightarrow> string \<Rightarrow> (string \<times> string) list \<Rightarrow>
     ((go_error + (string \<rightharpoonup> string) list) \<times> Client) outcome" where
  "Run c command args =
     (case Execute c (Run_sentence command args) of
        Panics \<Rightarrow> Panics
      | Returns (replies, Some err, c1) \<Rightarrow> Returns (Inl err, c1)
      | Returns (replies, None, c1) \<Rightarrow> Returns (Run_loop replies [] c1))"

section \<open>Concrete devices used in the evaluations below\<close>

text \<open>
  Replies as RouterOS sends them: a trap that rejects the credentials, a bare \<open>!done\<close>,
  a \<open>!fatal\<close>, and data rows of \<open>/interface/print\<close>.
\<close>

definition bad_login_trap :: Reply where
  "bad_login_trap =
     \<lparr>Type = ''!trap'', Data = [''message'' \<mapsto> ''invalid user name or password (6)''],
      Tag = []\<rparr>"

definition bare_done :: Reply where
  "bare_done = \<lparr>Type = ''!done'', Data = Map.empty, Tag = []\<rparr>"

definition session_fatal :: Reply where
  "session_fatal =
     \<lparr>Type = ''!fatal'', Data = [''message'' \<mapsto> ''session terminated''], Tag = []\<rparr>"

definition no_such_command_trap :: Reply where
  "no_such_command_trap =
     \<lparr>Type = ''!trap'', Data = [''message'' \<mapsto> ''no such command''], Tag = []\<rparr>"

definition interface_row :: "string \<Rightarrow> Reply" where
  "interface_row name = \<lparr>Type = ''!re'', Data = [''name'' \<mapsto> name], Tag = []\<rparr>"

definition device :: "Reply list \<Rightarrow> Conn" where
  "device replies =
     \<lparr>incoming = replies, read_error = IOError EOF, writes_ok = 4, sent = [],
      deadline_fails = False\<rparr>"

definition admin_config :: ClientConfig where
  "admin_config =
     \<lparr>Address = ''192.168.88.1:8728'', Username = ''admin'', Password = ''secret'',
      UseTLS = False, Timeout = 10000000000, RetryAttempts = 1, RetryDelay = 1000000000\<rparr>"

definition admin_client :: "Conn option \<Rightarrow> bool \<Rightarrow> Client" where
  "admin_client cn is_connected =
     \<lparr>config = admin_config, conn = cn, connected = is_connected,
      circuitBreaker = newCircuitBreaker 5 30000000000\<rparr>"

definition patient_env :: "(string \<Rightarrow> string \<Rightarrow> string) \<Rightarrow> connect_env" where
  "patient_env resp = \<lparr>ctx_done = (\<lambda>attempt. False), now0 = 1000, now1 = 2000, response = resp\<rparr>"

section \<open>Counter wraparound deltas\<close>

lemma Handle64BitCounterWrap_eq_minus: "Handle64BitCounterWrap c p = c - p"
  by (simp add: Handle64BitCounterWrap_def)

lemma Handle32BitCounterWrap_eq:
  "Handle32BitCounterWrap c p = (if p \<le> c then c - p else c - p + 0x100000000)"
  by (simp add: Handle32BitCounterWrap_def)

lemma mod_drop_modulus: "((x::int) + m + k) mod m = (x + k) mod m"
proof -
  have "x + m + k = (x + k) + m" by simp
  then show ?thesis by (simp only: mod_add_self2)
qed

lemma no_wrap_delta:
  assumes "p \<le> c"
  shows "uint (Handle32BitCounterWrap c p) = uint c - uint p"
    and "uint (Handle64BitCounterWrap c p) = uint c - uint p"
  using assms
  by (simp_all add: Handle32BitCounterWrap_eq Handle64BitCounterWrap_eq_minus uint_sub_if'
      word_le_def)

lemma wrap64_delta:
  assumes "c < p"
  shows "uint (Handle64BitCounterWrap c p) = (2 ^ 64 - 1 - uint p) + uint c + 1"
  using assms by (simp add: Handle64BitCounterWrap_eq_minus uint_sub_if' word_less_def)

lemma wrap32_delta:
  assumes "c < p" "p \<le> 0xFFFFFFFF"
  shows "uint (Handle32BitCounterWrap c p) = (2 ^ 32 - 1 - uint p) + uint c + 1"
proof -
  have lt: "uint c < uint p" using assms(1) by (simp add: word_less_def)
  have le: "uint p \<le> 4294967295" using assms(2) by (simp add: word_le_def)
  have "uint (Handle32BitCounterWrap c p) = (uint (c - p) + 4294967296) mod 2 ^ 64"
    using assms(1) by (simp add: Handle32BitCounterWrap_eq uint_word_ariths)
  also have "uint (c - p) = uint c - uint p + 2 ^ 64"
    using lt by (simp add: uint_sub_if')
  also have "(uint c - uint p + 2 ^ 64 + 4294967296) mod 2 ^ 64 =
      (uint c - uint p + 4294967296) mod 2 ^ 64"
    by (rule mod_drop_modulus)
  also have "\<dots> = uint c - uint p + 4294967296"
  proof (rule mod_pos_pos_trivial)
    show "0 \<le> uint c - uint p + 4294967296" using le uint_ge_0 [of c] by linarith
    show "uint c - uint p + 4294967296 < 2 ^ 64" using lt by simp
  qed
  finally show ?thesis by simp
qed

text \<open>
  C4, as stated, quantifies over all \<open>uint64\<close> counters for both handlers and promises
  a delta that is never a huge underflowed value. The 32-bit handler breaks this once
  \<open>previous\<close> lies beyond the 32-bit range: \<open>0xFFFFFFFF - previous\<close> itself underflows.
  With \<open>current = 0\<close> and \<open>previous = 2 ^ 32 + 1\<close> the result is \<open>2 ^ 64 - 1\<close>, while
  \<open>(2 ^ 32 - 1 - previous) + current + 1\<close> is \<open>-1\<close>.
\<close>

theorem Handle32BitCounterWrap_beyond_32_bit_counterexample:
  "(0 :: uint64) < 0x100000001 \<and>
   Handle32BitCounterWrap 0 0x100000001 = 0xFFFFFFFFFFFFFFFF \<and>
   uint (Handle32BitCounterWrap 0 0x100000001) \<noteq>
     (2 ^ 32 - 1 - uint (0x100000001 :: uint64)) + uint (0 :: uint64) + 1"
proof -
  have v: "Handle32BitCounterWrap 0 0x100000001 = 0xFFFFFFFFFFFFFFFF"
    by (simp add: Handle32BitCounterWrap_def)
  have "uint (0xFFFFFFFFFFFFFFFF :: uint64) = 18446744073709551615" by simp
  then show ?thesis unfolding v by simp
qed

text \<open>
  C4, amended. For all \<open>uint64\<close> counters: when \<open>current \<ge> previous\<close> both handlers
  return \<open>current - previous\<close>; when \<open>current < previous\<close> the 64-bit handler returns
  \<open>(2 ^ 64 - 1 - previous) + current + 1\<close>, which lies in \<open>[1, 2 ^ 64 - 1]\<close>, and the
  32-bit handler returns \<open>(2 ^ 32 - 1 - previous) + current + 1\<close>, which lies in
  \<open>[1, 2 ^ 32 - 1]\<close>, provided \<open>previous \<le> 2 ^ 32 - 1\<close>. In particular
  \<open>Handle64BitCounterWrap 100 (2 ^ 64 - 10) = 110\<close>. The values are read as unsigned
  integers (\<open>uint\<close>), so the arithmetic on the right is exact.
\<close>

theorem counter_wrap_delta:
  "(previous \<le> current \<longrightarrow>
      uint (Handle32BitCounterWrap current previous) = uint current - uint previous \<and>
      uint (Handle64BitCounterWrap current previous) = uint current - uint previous \<and>
      0 \<le> uint current - uint previous \<and> uint current - uint previous \<le> uint current) \<and>
   (current < previous \<longrightarrow>
      uint (Handle64BitCounterWrap current previous) =
        (2 ^ 64 - 1 - uint previous) + uint current + 1 \<and>
      1 \<le> uint (Handle64BitCounterWrap current previous) \<and>
      uint (Handle64BitCounterWrap current previous) \<le> 2 ^ 64 - 1) \<and>
   (current < previous \<and> previous \<le> 0xFFFFFFFF \<longrightarrow>
      uint (Handle32BitCounterWrap current previous) =
        (2 ^ 32 - 1 - uint previous) + uint current + 1 \<and>
      1 \<le> uint (Handle32BitCounterWrap current previous) \<and>
      uint (Handle32BitCounterWrap current previous) \<le> 2 ^ 32 - 1) \<and>
   Handle64BitCounterWrap 100 (0xFFFFFFFFFFFFFFFF - 9) = 110"
proof (intro conjI impI)
  assume le: "previous \<le> current"
  show "uint (Handle32BitCounterWrap current previous) = uint current - uint previous"
    and "uint (Handle64BitCounterWrap current previous) = uint current - uint previous"
    using le by (rule no_wrap_delta)+
  show "0 \<le> uint current - uint previous" using le by (simp add: word_le_def)
  show "uint current - uint previous \<le> uint current" by simp
next
  assume lt: "current < previous"
  have u: "uint current < uint previous" using lt by (simp add: word_less_def)
  have b: "uint previous < 2 ^ 64" using uint_lt2p [of previous] by simp
  show e: "uint (Handle64BitCounterWrap current previous) =
      (2 ^ 64 - 1 - uint previous) + uint current + 1"
    using lt by (rule wrap64_delta)
  show "1 \<le> uint (Handle64BitCounterWrap current previous)"
    unfolding e using b uint_ge_0 [of current] by linarith
  show "uint (Handle64BitCounterWrap current previous) \<le> 2 ^ 64 - 1"
    unfolding e using u by simp
next
  assume a: "current < previous \<and> previous \<le> 0xFFFFFFFF"
  have u: "uint current < uint previous" using a by (simp add: word_less_def)
  have b: "uint previous \<le> 4294967295" using a by (simp add: word_le_def)
  show e: "uint (Handle32BitCounterWrap current previous) =
      (2 ^ 32 - 1 - uint previous) + uint current + 1"
    using a by (intro wrap32_delta) simp_all
  show "1 \<le> uint (Handle32BitCounterWrap current previous)"
  proof -
    have "(2::int) ^ 32 = 4294967296" by simp
    then show ?thesis unfolding e using b uint_ge_0 [of current] by linarith
  qed
  show "uint (Handle32BitCounterWrap current previous) \<le> 2 ^ 32 - 1"
    unfolding e using u by simp
next
  show "Handle64BitCounterWrap 100 (0xFFFFFFFFFFFFFFFF - 9) = 110"
    by (simp add: Handle64BitCounterWrap_def)
qed

theorem counter_wrap_delta_witness:
  "(100 :: uint64) < 0xFFFFFF00 \<and> (0xFFFFFF00 :: uint64) \<le> 0xFFFFFFFF \<and>
   uint (Handle32BitCounterWrap 100 0xFFFFFF00) = 356 \<and>
   uint (Handle64BitCounterWrap 100 0xFFFFFF00) = 2 ^ 64 - 4294967040 + 100 \<and>
   (500 :: uint64) \<le> 1000 \<and>
   uint (Handle32BitCounterWrap 1000 500) = 500 \<and>
   uint (Handle64BitCounterWrap 1000 500) = 500"
  using counter_wrap_delta [where current = 100 and previous = "0xFFFFFF00"]
    counter_wrap_delta [where current = 1000 and previous = 500]
  by simp

section \<open>Length encoding round trip\<close>

lemma mask_byte_numerals:
  "(63::byte) = mask 6" "(31::byte) = mask 5" "(15::byte) = mask 4"
  by (simp_all add: mask_eq_exp_minus_1)

lemma mask_int_255: "(255::int) = mask 8"
  by (simp add: mask_eq_exp_minus_1)

lemma tag_numerals:
  "(128::int) = push_bit 7 (mask 1)" "(192::int) = push_bit 6 (mask 2)"
  "(224::int) = push_bit 5 (mask 3)"
  by (simp_all add: mask_eq_exp_minus_1 push_bit_eq_mult)

lemma no_high_bit:
  assumes "0 \<le> (L::int)" "L < 2 ^ k" "bit L n"
  shows "n < k"
proof (rule ccontr)
  assume "\<not> n < k"
  then have "k \<le> n" by simp
  moreover have "take_bit k L = L" using assms(1,2) by (simp add: take_bit_int_eq_self)
  ultimately have "\<not> bit L n" by (metis bit_take_bit_iff not_le)
  with assms(3) show False by simp
qed

lemma bit_push_mask: "bit (push_bit k (mask j) :: int) m = (k \<le> m \<and> m - k < j)"
  by (simp only: bit_push_bit_iff bit_mask_iff) auto

lemma or_tag_eq_add:
  assumes "0 \<le> (x::int)" "x < 2 ^ k"
  shows "x OR push_bit k (mask j) = x + push_bit k (mask j)"
proof -
  have "\<not> bit x n \<or> \<not> bit (push_bit k (mask j :: int)) n" for n
    using no_high_bit [OF assms, of n] unfolding bit_push_mask by auto
  then show ?thesis by (rule disjunctive_add [symmetric])
qed

lemma uint_byte_of:
  assumes "0 \<le> y" "y < 256"
  shows "uint (byte_of y) = y"
  using assms by (simp add: byte_of_def uint_word_of_int take_bit_int_eq_self)

lemma first_byte_uint:
  assumes "0 \<le> (x::int)" "x < 2 ^ k" "x + push_bit k (mask j) < 256"
  shows "uint (byte_of (x OR push_bit k (mask j))) = x + push_bit k (mask j)"
proof -
  have "0 \<le> x + push_bit k (mask j :: int)" using assms(1) by simp
  then have "uint (byte_of (x + push_bit k (mask j))) = x + push_bit k (mask j)"
    using assms(3) by (rule uint_byte_of)
  then show ?thesis by (simp only: or_tag_eq_add [OF assms(1,2)])
qed

lemma bit_tags:
  "bit (128::int) m = (m = 7)"
  "bit (192::int) m = (m = 6 \<or> m = 7)"
  "bit (224::int) m = (m = 5 \<or> m = 6 \<or> m = 7)"
proof -
  have "bit (128::int) m = bit (push_bit 7 (mask 1) :: int) m" by (simp only: tag_numerals)
  then show "bit (128::int) m = (m = 7)" unfolding bit_push_mask by auto
  have "bit (192::int) m = bit (push_bit 6 (mask 2) :: int) m" by (simp only: tag_numerals)
  then show "bit (192::int) m = (m = 6 \<or> m = 7)" unfolding bit_push_mask by auto
  have "bit (224::int) m = bit (push_bit 5 (mask 3) :: int) m" by (simp only: tag_numerals)
  then show "bit (224::int) m = (m = 5 \<or> m = 6 \<or> m = 7)" unfolding bit_push_mask by auto
qed

lemma value1:
  assumes "0 \<le> L" "L < 0x80"
  shows "uint (byte_of L) = L"
  using assms by (simp add: byte_of_def uint_word_of_int take_bit_int_eq_self)

lemma value2:
  assumes "0 \<le> L" "L < 0x4000"
  shows "push_bit 8 (uint (byte_of (drop_bit 8 L OR 128) AND 63)) OR uint (byte_of (L AND 255)) = L"
proof (rule bit_eqI)
  fix n
  have nb: "bit L n \<Longrightarrow> n < 14" using assms no_high_bit [of L 14 n] by simp
  show "bit (push_bit 8 (uint (byte_of (drop_bit 8 L OR 128) AND 63))
          OR uint (byte_of (L AND 255))) n = bit L n"
    unfolding mask_byte_numerals mask_int_255 byte_of_def
    using nb by (cases "n < 8"; cases "n < 16"; cases "n < 24") (auto simp add: bit_simps bit_tags)
qed

lemma value3:
  assumes "0 \<le> L" "L < 0x200000"
  shows "push_bit 16 (uint (byte_of (drop_bit 16 L OR 192) AND 31))
           OR push_bit 8 (uint (byte_of (drop_bit 8 L AND 255)))
           OR uint (byte_of (L AND 255)) = L"
proof (rule bit_eqI)
  fix n
  have nb: "bit L n \<Longrightarrow> n < 21" using assms no_high_bit [of L 21 n] by simp
  show "bit (push_bit 16 (uint (byte_of (drop_bit 16 L OR 192) AND 31))
           OR push_bit 8 (uint (byte_of (drop_bit 8 L AND 255)))
           OR uint (byte_of (L AND 255))) n = bit L n"
    unfolding mask_byte_numerals mask_int_255 byte_of_def
    using nb by (cases "n < 8"; cases "n < 16"; cases "n < 24") (auto simp add: bit_simps bit_tags)
qed

lemma value4:
  assumes "0 \<le> L" "L < 0x10000000"
  shows "push_bit 24 (uint (byte_of (drop_bit 24 L OR 224) AND 15))
           OR push_bit 16 (uint (byte_of (drop_bit 16 L AND 255)))
           OR push_bit 8 (uint (byte_of (drop_bit 8 L AND 255)))
           OR uint (byte_of (L AND 255)) = L"
proof (rule bit_eqI)
  fix n
  have nb: "bit L n \<Longrightarrow> n < 28" using assms no_high_bit [of L 28 n] by simp
  show "bit (push_bit 24 (uint (byte_of (drop_bit 24 L OR 224) AND 15))
           OR push_bit 16 (uint (byte_of (drop_bit 16 L AND 255)))
           OR push_bit 8 (uint (byte_of (drop_bit 8 L AND 255)))
           OR uint (byte_of (L AND 255))) n = bit L n"
    unfolding mask_byte_numerals mask_int_255 byte_of_def
    using nb by (cases "n < 8"; cases "n < 16"; cases "n < 24") (auto simp add: bit_simps bit_tags)
qed

lemma value5:
  assumes "0 \<le> L" "L < 0x100000000"
  shows "uint (BigEndian_Uint32 [byte_of (drop_bit 24 L AND 255), byte_of (drop_bit 16 L AND 255),
            byte_of (drop_bit 8 L AND 255), byte_of (L AND 255)]) = L"
proof (rule bit_eqI)
  fix n
  have nb: "bit L n \<Longrightarrow> n < 32" using assms no_high_bit [of L 32 n] by simp
  show "bit (uint (BigEndian_Uint32 [byte_of (drop_bit 24 L AND 255), byte_of (drop_bit 16 L AND 255),
            byte_of (drop_bit 8 L AND 255), byte_of (L AND 255)])) n = bit L n"
    unfolding mask_int_255 byte_of_def BigEndian_Uint32_def
    using nb by (cases "n < 8"; cases "n < 16"; cases "n < 24") (auto simp add: bit_simps)
qed


lemma byte_order:
  "\<not> (b::byte) < 0xC0 \<Longrightarrow> \<not> b < 0x80"
  "\<not> (b::byte) < 0xE0 \<Longrightarrow> \<not> b < 0xC0"
  "\<not> (b::byte) < 0xF0 \<Longrightarrow> \<not> b < 0xE0"
  by (simp_all add: word_less_def)

lemma DecodeLength_1:
  "b < 0x80 \<Longrightarrow> DecodeLength (b # rest) = Inr (uint b, rest)"
  by (simp add: DecodeLength_def ReadFull_def)

lemma DecodeLength_2:
  "\<not> b < 0x80 \<Longrightarrow> b < 0xC0 \<Longrightarrow>
   DecodeLength (b # s # rest) = Inr (push_bit 8 (uint (b AND 0x3F)) OR uint s, rest)"
  by (simp add: DecodeLength_def ReadFull_def)

lemma DecodeLength_3:
  "\<not> b < 0xC0 \<Longrightarrow> b < 0xE0 \<Longrightarrow>
   DecodeLength (b # e0 # e1 # rest) =
     Inr (push_bit 16 (uint (b AND 0x1F)) OR push_bit 8 (uint e0) OR uint e1, rest)"
  by (simp add: DecodeLength_def ReadFull_def byte_order)

lemma DecodeLength_4:
  "\<not> b < 0xE0 \<Longrightarrow> b < 0xF0 \<Longrightarrow>
   DecodeLength (b # e0 # e1 # e2 # rest) =
     Inr (push_bit 24 (uint (b AND 0x0F)) OR push_bit 16 (uint e0) OR push_bit 8 (uint e1)
            OR uint e2, rest)"
  by (simp add: DecodeLength_def ReadFull_def byte_order)

lemma DecodeLength_5:
  "\<not> b < 0xF0 \<Longrightarrow>
   DecodeLength (b # e0 # e1 # e2 # e3 # rest) =
     Inr (uint (BigEndian_Uint32 [e0, e1, e2, e3]), rest)"
  by (simp add: DecodeLength_def ReadFull_def byte_order)

lemma first_byte_2:
  assumes "0x80 \<le> L" "L < 0x4000"
  shows "uint (byte_of (drop_bit 8 L OR 128)) = drop_bit 8 L + 128"
proof -
  have a: "0 \<le> drop_bit 8 L" using assms by simp
  have b: "drop_bit 8 L < 2 ^ 7" using assms by (simp add: drop_bit_eq_div)
  have c: "drop_bit 8 L + push_bit 7 (mask 1) < 256" using assms by (simp add: drop_bit_eq_div)
  show ?thesis using first_byte_uint [OF a b c] by (simp only: tag_numerals)
qed

lemma first_byte_3:
  assumes "0x4000 \<le> L" "L < 0x200000"
  shows "uint (byte_of (drop_bit 16 L OR 192)) = drop_bit 16 L + 192"
proof -
  have a: "0 \<le> drop_bit 16 L" using assms by simp
  have b: "drop_bit 16 L < 2 ^ 6" using assms by (simp add: drop_bit_eq_div)
  have c: "drop_bit 16 L + push_bit 6 (mask 2) < 256"
    using assms by (simp add: drop_bit_eq_div tag_numerals [symmetric])
  show ?thesis using first_byte_uint [OF a b c] by (simp only: tag_numerals)
qed

lemma first_byte_4:
  assumes "0x200000 \<le> L" "L < 0x10000000"
  shows "uint (byte_of (drop_bit 24 L OR 224)) = drop_bit 24 L + 224"
proof -
  have a: "0 \<le> drop_bit 24 L" using assms by simp
  have b: "drop_bit 24 L < 2 ^ 5" using assms by (simp add: drop_bit_eq_div)
  have c: "drop_bit 24 L + push_bit 5 (mask 3) < 256"
    using assms by (simp add: drop_bit_eq_div tag_numerals [symmetric])
  show ?thesis using first_byte_uint [OF a b c] by (simp only: tag_numerals)
qed

text \<open>
  C3. For every length \<open>L\<close> with \<open>0 \<le> L < 2 ^ 32\<close>, \<open>DecodeLength\<close> applied to the
  bytes produced by \<open>EncodeLength L\<close> returns \<open>L\<close>. The reader may hold further bytes
  after the encoded length; they are left unread.
\<close>

theorem EncodeLength_DecodeLength_roundtrip:
  assumes "0 \<le> L" "L < 2 ^ 32"
  shows "DecodeLength (EncodeLength L @ rest) = Inr (L, rest)"
proof -
  consider (one) "L < 0x80" | (two) "0x80 \<le> L" "L < 0x4000"
    | (three) "0x4000 \<le> L" "L < 0x200000" | (four) "0x200000 \<le> L" "L < 0x10000000"
    | (five) "0x10000000 \<le> L"
    by linarith
  then show ?thesis
  proof cases
    case one
    have u: "uint (byte_of L) = L" using assms(1) one by (intro uint_byte_of) simp_all
    then have "byte_of L < 0x80" using one by (simp add: word_less_def)
    then show ?thesis using one u by (simp add: EncodeLength_def DecodeLength_1)
  next
    case two
    let ?b = "byte_of (drop_bit 8 L OR 128)"
    have u: "uint ?b = drop_bit 8 L + 128" using two by (rule first_byte_2)
    have d: "0 \<le> drop_bit 8 L" "drop_bit 8 L < 64" using two by (simp_all add: drop_bit_eq_div)
    have r: "\<not> ?b < 0x80" "?b < 0xC0" using u d by (simp_all add: word_less_def)
    show ?thesis
      using two value2 [of L] by (simp add: EncodeLength_def DecodeLength_2 [OF r])
  next
    case three
    let ?b = "byte_of (drop_bit 16 L OR 192)"
    have u: "uint ?b = drop_bit 16 L + 192" using three by (rule first_byte_3)
    have d: "0 \<le> drop_bit 16 L" "drop_bit 16 L < 32" using three by (simp_all add: drop_bit_eq_div)
    have r: "\<not> ?b < 0xC0" "?b < 0xE0" using u d by (simp_all add: word_less_def)
    show ?thesis
      using three value3 [of L] by (simp add: EncodeLength_def DecodeLength_3 [OF r])
  next
    case four
    let ?b = "byte_of (drop_bit 24 L OR 224)"
    have u: "uint ?b = drop_bit 24 L + 224" using four by (rule first_byte_4)
    have d: "0 \<le> drop_bit 24 L" "drop_bit 24 L < 16" using four by (simp_all add: drop_bit_eq_div)
    have r: "\<not> ?b < 0xE0" "?b < 0xF0" using u d by (simp_all add: word_less_def)
    show ?thesis
      using four value4 [of L] by (simp add: EncodeLength_def DecodeLength_4 [OF r])
  next
    case five
    have r: "\<not> (0xF0 :: byte) < 0xF0" by simp
    show ?thesis
      using five assms value5 [of L] by (simp add: EncodeLength_def DecodeLength_5 [OF r])
  qed
qed

theorem EncodeLength_DecodeLength_roundtrip_witness:
  "(0::int) \<le> 100000 \<and> (100000::int) < 2 ^ 32 \<and>
   DecodeLength (EncodeLength 100000 @ []) = Inr (100000, [])"
  using EncodeLength_DecodeLength_roundtrip [of 100000 "[]"] by simp

section \<open>Interface filter: glob matching and include/exclude lists\<close>

lemma takeWhile_until: "sep \<notin> set pre \<Longrightarrow> takeWhile (\<lambda>c. c \<noteq> sep) (pre @ sep # suf) = pre"
  by (induction pre) auto

lemma dropWhile_until: "sep \<notin> set pre \<Longrightarrow> dropWhile (\<lambda>c. c \<noteq> sep) (pre @ sep # suf) = sep # suf"
  by (induction pre) auto

lemma Split_no_sep: "sep \<notin> set s \<Longrightarrow> Split s sep = [s]"
  by (simp add: Split.simps [of s] Contains_def)

lemma Split_cut:
  assumes "sep \<notin> set pre"
  shows "Split (pre @ sep # suf) sep = pre # Split suf sep"
  by (subst Split.simps)
    (simp add: takeWhile_until [OF assms] dropWhile_until [OF assms] Contains_def)

lemma length_Split: "length (Split s sep) = Suc (count_list s sep)"
proof (induction s sep rule: Split.induct)
  case (1 s sep)
  show ?case
  proof (cases "sep \<in> set s")
    case False
    then show ?thesis by (simp add: Split_no_sep)
  next
    case True
    then obtain pre suf where s: "s = pre @ sep # suf" and n: "sep \<notin> set pre"
      using split_list_first by fast
    have d: "dropWhile (\<lambda>c. c \<noteq> sep) s = sep # suf"
      unfolding s using n by (rule dropWhile_until)
    have "length (Split suf sep) = Suc (count_list suf sep)"
      using 1 True d by (simp add: Contains_def)
    moreover have "count_list pre sep = 0" using n by (simp add: count_list_0_iff)
    ultimately show ?thesis by (simp add: s Split_cut [OF n])
  qed
qed

lemma HasPrefix_iff: "HasPrefix s pre \<longleftrightarrow> prefix pre s"
  by (auto simp: HasPrefix_def prefix_def) (metis append_take_drop_id)

lemma HasSuffix_iff: "HasSuffix s suf \<longleftrightarrow> suffix suf s"
proof
  assume "HasSuffix s suf"
  then have "drop (length s - length suf) s = suf" by (simp add: HasSuffix_def)
  then show "suffix suf s" by (metis suffix_drop)
next
  assume "suffix suf s"
  then obtain xs where "s = xs @ suf" by (auto simp: suffix_def)
  then show "HasSuffix s suf" by (simp add: HasSuffix_def)
qed

lemma matchGlob_one_star:
  assumes "CHR ''*'' \<notin> set pre" "CHR ''*'' \<notin> set suf"
  shows "matchGlob (pre @ CHR ''*'' # suf) s \<longleftrightarrow> prefix pre s \<and> suffix suf s"
  using assms
  by (simp add: matchGlob_def Contains_def Split_cut Split_no_sep HasPrefix_iff HasSuffix_iff)

lemma matchGlob_no_star:
  assumes "CHR ''*'' \<notin> set pattern"
  shows "matchGlob pattern s \<longleftrightarrow> pattern = s"
  using assms by (auto simp add: matchGlob_def Contains_def)

lemma matchGlob_many_stars:
  assumes "2 \<le> count_list pattern (CHR ''*'')"
  shows "matchGlob pattern s \<longleftrightarrow> pattern = s"
proof -
  have "pattern \<noteq> []" using assms by auto
  moreover have "length (Split pattern (CHR ''*'')) \<noteq> 2"
    using assms by (simp add: length_Split)
  ultimately show ?thesis by (simp add: matchGlob_def Let_def)
qed

lemma include_loop_iff:
  "include_loop name incl b \<longleftrightarrow> b \<or> (\<exists>p \<in> set incl. matchGlob p name)"
  by (induction incl) auto

lemma exclude_loop_iff:
  "exclude_loop name excl \<longleftrightarrow> (\<forall>p \<in> set excl. \<not> matchGlob p name)"
  by (induction excl) auto

lemma MatchFilter_loops:
  "MatchFilter name incl excl \<longleftrightarrow>
     (incl = [] \<or> (\<exists>p \<in> set incl. matchGlob p name)) \<and> (\<forall>p \<in> set excl. \<not> matchGlob p name)"
  by (simp add: MatchFilter_def include_loop_iff exclude_loop_iff)

text \<open>
  C7. \<open>MatchFilter\<close> returns true iff the include list is empty or the name matches at
  least one include pattern, and the name matches no exclude pattern. A pattern with
  one \<open>*\<close> (written \<open>pre @ CHR ''*'' # suf\<close> with no star in \<open>pre\<close> or \<open>suf\<close>) matches
  exactly the names that start with \<open>pre\<close> and end with \<open>suf\<close>; a pattern without \<open>*\<close>
  matches only the name equal to it; the empty pattern matches only the empty name.
  The three reference calls evaluate as the specification says.
\<close>

theorem MatchFilter_include_exclude:
  "(MatchFilter name incl excl \<longleftrightarrow>
      (incl = [] \<or> (\<exists>p \<in> set incl. matchGlob p name)) \<and>
      (\<forall>p \<in> set excl. \<not> matchGlob p name)) \<and>
   (CHR ''*'' \<notin> set pre \<and> CHR ''*'' \<notin> set suf \<longrightarrow>
      (matchGlob (pre @ CHR ''*'' # suf) s \<longleftrightarrow> prefix pre s \<and> suffix suf s)) \<and>
   (CHR ''*'' \<notin> set pattern \<longrightarrow> (matchGlob pattern s \<longleftrightarrow> pattern = s)) \<and>
   (matchGlob [] s \<longleftrightarrow> s = []) \<and>
   \<not> MatchFilter ''ether1-wan'' [''ether*''] [''*-wan''] \<and>
   MatchFilter ''ether1'' [''ether*''] [] \<and>
   MatchFilter ''bridge1'' [] []"
proof (intro conjI impI)
  show "MatchFilter name incl excl \<longleftrightarrow>
      (incl = [] \<or> (\<exists>p \<in> set incl. matchGlob p name)) \<and>
      (\<forall>p \<in> set excl. \<not> matchGlob p name)"
    by (rule MatchFilter_loops)
  show "matchGlob (pre @ CHR ''*'' # suf) s \<longleftrightarrow> prefix pre s \<and> suffix suf s"
    if "CHR ''*'' \<notin> set pre \<and> CHR ''*'' \<notin> set suf"
    using that by (intro matchGlob_one_star) simp_all
  show "matchGlob pattern s \<longleftrightarrow> pattern = s" if "CHR ''*'' \<notin> set pattern"
    using that by (rule matchGlob_no_star)
  show "matchGlob [] s \<longleftrightarrow> s = []" by (simp add: matchGlob_def)
  show "\<not> MatchFilter ''ether1-wan'' [''ether*''] [''*-wan'']" by code_simp
  show "MatchFilter ''ether1'' [''ether*''] []" by code_simp
  show "MatchFilter ''bridge1'' [] []" by code_simp
qed

theorem MatchFilter_include_exclude_witness:
  "MatchFilter ''sfp1'' [''ether*'', ''sfp*''] [''bridge-local''] \<and>
   CHR ''*'' \<notin> set ''ether'' \<and> CHR ''*'' \<notin> set ''-wan'' \<and>
   matchGlob (''ether'' @ CHR ''*'' # ''-wan'') ''ether1-wan'' \<and>
   CHR ''*'' \<notin> set ''ether2'' \<and> \<not> matchGlob ''ether2'' ''ether1-wan''"
proof -
  have p: "prefix ''ether'' ''ether1-wan''" by simp
  have "''ether1-wan'' = ''ether1'' @ ''-wan''" by simp
  then have q: "suffix ''-wan'' ''ether1-wan''" by (rule suffixI)
  have m: "\<exists>p \<in> set [''ether*'', ''sfp*'']. matchGlob p ''sfp1''"
    by (simp add: matchGlob_one_star [of "''sfp''" "[]", simplified])
  have x: "\<forall>p \<in> set [''bridge-local'']. \<not> matchGlob p ''sfp1''"
    by (simp add: matchGlob_no_star)
  show ?thesis
    using MatchFilter_include_exclude [where name = "''sfp1''" and incl = "[''ether*'', ''sfp*'']"
        and excl = "[''bridge-local'']" and pre = "''ether''" and suf = "''-wan''"
        and s = "''ether1-wan''" and pattern = "''ether2''"] p q m x
    by simp
qed

text \<open>
  C10. A pattern with two or more \<open>*\<close> characters is compared literally: it matches a
  name only when the name equals the pattern character for character, so the name
  itself contains the stars. Used alone as an include list such a pattern lets through
  only the name equal to it, and as an exclude list it rejects only that name.
\<close>

theorem matchGlob_two_or_more_stars_literal:
  assumes "2 \<le> count_list pattern (CHR ''*'')"
  shows "(matchGlob pattern s \<longleftrightarrow> pattern = s) \<and>
         (matchGlob pattern s \<longrightarrow> 2 \<le> count_list s (CHR ''*'')) \<and>
         (MatchFilter s [pattern] [] \<longleftrightarrow> s = pattern) \<and>
         (MatchFilter s [] [pattern] \<longleftrightarrow> s \<noteq> pattern)"
proof -
  have lit: "matchGlob pattern s \<longleftrightarrow> pattern = s"
    using assms by (rule matchGlob_many_stars)
  then show ?thesis using assms by (auto simp add: MatchFilter_loops)
qed

theorem matchGlob_two_or_more_stars_literal_witness:
  "2 \<le> count_list ''a*b*c'' (CHR ''*'') \<and>
   matchGlob ''a*b*c'' ''a*b*c'' \<and> \<not> matchGlob ''a*b*c'' ''aXbYc'' \<and>
   \<not> MatchFilter ''aXbYc'' [''a*b*c''] [] \<and> MatchFilter ''aXbYc'' [] [''a*b*c'']"
proof -
  have c: "2 \<le> count_list ''a*b*c'' (CHR ''*'')" by simp
  show ?thesis
    using c matchGlob_two_or_more_stars_literal [OF c, of "''a*b*c''"]
      matchGlob_two_or_more_stars_literal [OF c, of "''aXbYc''"]
    by simp
qed

section \<open>Circuit breaker: opening, cooldown and the half-open trial\<close>

lemma recordFailure_counts:
  "failures (recordFailure now cb) = failures cb + 1"
  "lastFailure (recordFailure now cb) = now"
  "maxFailures (recordFailure now cb) = maxFailures cb"
  "resetTimeout (recordFailure now cb) = resetTimeout cb"
  "halfOpenAttempts (recordFailure now cb) = halfOpenAttempts cb"
  by (simp_all add: recordFailure_def Let_def)

lemma recordFailure_reaching_max_opens:
  assumes "failures cb + 1 \<ge> maxFailures cb"
  shows "state (recordFailure now cb) = circuitOpen"
  using assms by (simp add: recordFailure_def Let_def)

lemma recordFailure_half_open_reopens:
  assumes "state cb = circuitHalfOpen"
  shows "state (recordFailure now cb) = circuitOpen"
  using assms by (simp add: recordFailure_def Let_def)

lemma canAttempt_open_blocked:
  assumes "state cb = circuitOpen" "now - lastFailure cb \<le> resetTimeout cb"
  shows "canAttempt now cb = (False, cb)"
  using assms by (simp add: canAttempt_def)

lemma canAttempt_open_after_timeout:
  assumes "state cb = circuitOpen" "now - lastFailure cb > resetTimeout cb"
  shows "fst (canAttempt now cb)"
    and "state (snd (canAttempt now cb)) = circuitHalfOpen"
    and "halfOpenAttempts (snd (canAttempt now cb)) = 0"
  using assms by (simp_all add: canAttempt_def)

lemma run_failures_snoc:
  "snd (run_ops (map RecordFailure (ts @ [t])) cb) =
     recordFailure t (snd (run_ops (map RecordFailure ts) cb))"
  by (induction ts arbitrary: cb) simp_all

lemma run_failures_count:
  "failures (snd (run_ops (map RecordFailure ts) cb)) = failures cb + int (length ts)"
  by (induction ts arbitrary: cb) (simp_all add: recordFailure_counts)

lemma run_failures_maxFailures:
  "maxFailures (snd (run_ops (map RecordFailure ts) cb)) = maxFailures cb"
  by (induction ts arbitrary: cb) (simp_all add: recordFailure_counts)

text \<open>
  Consecutive failures open the breaker as soon as their number reaches \<open>maxFailures\<close>,
  and the last of them stamps the failure time.
\<close>

lemma consecutive_failures_open:
  assumes "ts \<noteq> []" "maxFailures cb \<le> failures cb + int (length ts)"
  shows "state (snd (run_ops (map RecordFailure ts) cb)) = circuitOpen"
    and "lastFailure (snd (run_ops (map RecordFailure ts) cb)) = last ts"
proof -
  obtain us t where ts: "ts = us @ [t]"
    using assms(1) by (metis append_butlast_last_id)
  let ?cb = "snd (run_ops (map RecordFailure us) cb)"
  have "maxFailures ?cb \<le> failures ?cb + 1"
    using assms(2) by (simp add: ts run_failures_count run_failures_maxFailures)
  then have "state (recordFailure t ?cb) = circuitOpen"
    by (rule recordFailure_reaching_max_opens)
  then show "state (snd (run_ops (map RecordFailure ts) cb)) = circuitOpen"
    unfolding ts run_failures_snoc .
  show "lastFailure (snd (run_ops (map RecordFailure ts) cb)) = last ts"
    unfolding ts run_failures_snoc by (simp add: recordFailure_counts)
qed

text \<open>
  The counter \<open>halfOpenAttempts\<close> is only ever assigned \<open>0\<close>: no operation of the breaker
  increments it.
\<close>

lemma halfOpenAttempts_stays_zero:
  assumes "halfOpenAttempts cb = 0"
  shows "halfOpenAttempts (snd (run_ops ops cb)) = 0"
  using assms
proof (induction ops arbitrary: cb)
  case Nil
  then show ?case by simp
next
  case (Cons op ops)
  show ?case
  proof (cases op)
    case (CanAttempt now)
    have "halfOpenAttempts (snd (canAttempt now cb)) = 0"
      using Cons.prems by (simp add: canAttempt_def split: circuitState.splits)
    then have "halfOpenAttempts (snd (run_ops ops (snd (canAttempt now cb)))) = 0"
      by (rule Cons.IH)
    then show ?thesis using CanAttempt by (simp add: split_beta)
  next
    case RecordSuccess
    have "halfOpenAttempts (recordSuccess cb) = 0"
      using Cons.prems by (simp add: recordSuccess_def)
    then show ?thesis using RecordSuccess Cons.IH by simp
  next
    case (RecordFailure now)
    have "halfOpenAttempts (recordFailure now cb) = 0"
      using Cons.prems by (simp add: recordFailure_counts)
    then show ?thesis using RecordFailure Cons.IH by simp
  next
    case Reset
    have "halfOpenAttempts (reset cb) = 0"
      using Cons.prems by (simp add: reset_def)
    then show ?thesis using Reset Cons.IH by simp
  qed
qed

lemma canAttempt_half_open_admits_again:
  assumes "state cb = circuitHalfOpen" "halfOpenAttempts cb = 0"
  shows "canAttempt now cb = (True, cb)"
  using assms by (simp add: canAttempt_def)

text \<open>
  C2 at a concrete run: a breaker with \<open>maxFailures = 3\<close> and a reset timeout of 100
  records three failures at time 0. \<open>canAttempt\<close> at times 50 and 100 is denied, at
  time 101 it is granted and the breaker is half-open. A second \<open>canAttempt\<close> at time
  102, with no \<open>recordSuccess\<close> or \<open>recordFailure\<close> in between, is granted as well,
  where C2 says it is denied. A failure recorded after that reopens the breaker.
\<close>

theorem canAttempt_half_open_second_trial_granted:
  "run_ops [RecordFailure 0, RecordFailure 0, RecordFailure 0,
            CanAttempt 50, CanAttempt 100, CanAttempt 101, CanAttempt 102]
     (newCircuitBreaker 3 100) =
     ([False, False, True, True],
      \<lparr>failures = 3, maxFailures = 3, state = circuitHalfOpen, lastFailure = 0,
       resetTimeout = 100, halfOpenAttempts = 0\<rparr>) \<and>
   state (snd (run_ops [RecordFailure 0, RecordFailure 0, RecordFailure 0,
            CanAttempt 101, CanAttempt 102, RecordFailure 103]
     (newCircuitBreaker 3 100))) = circuitOpen"
  by (simp add: newCircuitBreaker_def recordFailure_def canAttempt_def Let_def)

section \<open>Run: mapping replies to rows\<close>

lemmas reply_tests = IsTrap_def IsDone_def IsFatal_def IsData_def

lemma Run_loop_clean:
  assumes "\<forall>r \<in> set replies. \<not> IsTrap r \<and> \<not> IsFatal r"
  shows "Run_loop replies result c = (Inr (result @ map Data (filter IsData replies)), c)"
  using assms by (induction replies arbitrary: result) simp_all

lemma Run_loop_first_trap:
  assumes "\<forall>r \<in> set pre. \<not> IsTrap r \<and> \<not> IsFatal r" "IsTrap r"
  shows "Run_loop (pre @ r # post) result c = (Inl (NewTrapError r), c)"
  using assms by (induction pre arbitrary: result) simp_all

lemma Run_loop_first_fatal:
  assumes "\<forall>r \<in> set pre. \<not> IsTrap r \<and> \<not> IsFatal r" "\<not> IsTrap r" "IsFatal r"
  shows "Run_loop (pre @ r # post) result c = (Inl (NewFatalError r), closeConn c)"
  using assms by (induction pre arbitrary: result) simp_all

text \<open>What \<open>readAllReplies\<close> returns without an error ends at the first terminal reply.\<close>

lemma loop_reply:
  assumes "readReply c = Returns (Inr reply, c')"
  shows "readAllReplies_loop c acc =
    (if IsDone reply \<or> IsFatal reply then Returns (acc @ [reply], None, c')
     else readAllReplies_loop c' (acc @ [reply]))"
  by (subst readAllReplies_loop.simps) (simp add: assms)

lemma loop_error:
  assumes "readReply c = Returns (Inl err, c')"
  shows "readAllReplies_loop c acc = Returns (acc, Some err, c')"
  by (subst readAllReplies_loop.simps) (simp add: assms)

lemma loop_panic:
  assumes "readReply c = Panics"
  shows "readAllReplies_loop c acc = Panics"
  by (subst readAllReplies_loop.simps) (simp add: assms)

lemma readAllReplies_loop_shape:
  assumes "readAllReplies_loop c acc = Returns (replies, None, c1)"
  shows "\<exists>new t. replies = acc @ new @ [t] \<and> (IsDone t \<or> IsFatal t) \<and>
           (\<forall>r \<in> set new. \<not> IsDone r \<and> \<not> IsFatal r)"
  using assms
proof (induction c acc rule: readAllReplies_loop.induct)
  case (1 c acc)
  show ?case
  proof (cases "readReply c")
    case Panics
    then show ?thesis using "1.prems" by (simp add: loop_panic)
  next
    case (Returns x)
    obtain res c' where x: "x = (res, c')" by (cases x)
    show ?thesis
    proof (cases res)
      case (Inl err)
      then show ?thesis using "1.prems" Returns x by (simp add: loop_error)
    next
      case (Inr reply)
      have rr: "readReply c = Returns (Inr reply, c')" using Returns x Inr by simp
      show ?thesis
      proof (cases "IsDone reply \<or> IsFatal reply")
        case True
        then have "replies = acc @ [] @ [reply]"
          using "1.prems" by (simp add: loop_reply [OF rr])
        then show ?thesis using True
          by (intro exI [of _ "[]"] exI [of _ reply]) simp
      next
        case False
        then have "readAllReplies_loop c' (acc @ [reply]) = Returns (replies, None, c1)"
          using "1.prems" by (simp add: loop_reply [OF rr])
        then obtain new t where n: "replies = (acc @ [reply]) @ new @ [t]" "IsDone t \<or> IsFatal t"
            "\<forall>r \<in> set new. \<not> IsDone r \<and> \<not> IsFatal r"
          using "1.IH" [OF Returns x [symmetric] Inr False] by blast
        then have "replies = acc @ (reply # new) @ [t]" by simp
        moreover have "\<forall>r \<in> set (reply # new). \<not> IsDone r \<and> \<not> IsFatal r"
          using False n(3) by simp
        ultimately show ?thesis using n(2)
          by (intro exI [of _ "reply # new"] exI [of _ t]) simp
      qed
    qed
  qed
qed

lemma Execute_reads:
  assumes "Execute c sentence = Returns (replies, None, c1)"
  shows "\<exists>c'. readAllReplies_loop c' [] = Returns (replies, None, c1)"
proof -
  have conn: "connected c" using assms by (auto simp: Execute_def split: if_splits)
  show ?thesis
  proof (cases "writeSentence c sentence")
    case Panics
    then show ?thesis using assms conn
      by (simp add: Execute_def split: if_splits outcome.splits option.splits)
  next
    case (Returns x)
    obtain e c' where x: "x = (e, c')" by (cases x)
    show ?thesis
    proof (cases e)
      case None
      then have "readAllReplies c' = Returns (replies, None, c1)"
        using assms conn Returns x
        by (simp add: Execute_def split: if_splits outcome.splits option.splits)
      then show ?thesis unfolding readAllReplies_def by blast
    next
      case (Some err)
      then show ?thesis using assms conn Returns x
        by (simp add: Execute_def split: if_splits outcome.splits option.splits)
    qed
  qed
qed

lemma Execute_shape:
  assumes "Execute c sentence = Returns (replies, None, c1)"
  shows "\<exists>new t. replies = new @ [t] \<and> (IsDone t \<or> IsFatal t) \<and>
           (\<forall>r \<in> set new. \<not> IsDone r \<and> \<not> IsFatal r)"
proof -
  obtain c' where "readAllReplies_loop c' [] = Returns (replies, None, c1)"
    using Execute_reads [OF assms] by blast
  from readAllReplies_loop_shape [OF this] show ?thesis by simp
qed


lemma Run_after_Execute:
  assumes "Execute c (Run_sentence command args) = Returns (replies, None, c1)"
  shows "Run c command args = Returns (Run_loop replies [] c1)"
  by (simp add: Run_def assms)

lemma trap_not_terminal: "IsTrap r \<Longrightarrow> \<not> IsDone r \<and> \<not> IsFatal r"
  by (simp add: reply_tests)

lemmas scenario_defs = admin_client_def admin_config_def device_def newCircuitBreaker_def
  bad_login_trap_def bare_done_def session_fatal_def no_such_command_trap_def interface_row_def

lemmas io_defs = Execute_def writeSentence_def readAllReplies_def readReply_def
  DecodeSentence_def Run_sentence_def NewSentence_def AddAttribute_def

text \<open>
  What \<open>Run\<close> does with the replies that \<open>Execute\<close> returns without an error, by the
  first trap or fatal reply among them: a trap ends the call with its TrapError and
  the client as \<open>Execute\<close> left it; with no trap, a fatal reply ends it with its
  FatalError after \<open>closeConn\<close>; with neither, the rows are the attribute maps of the
  data replies in the order of the replies.
\<close>

lemma Run_on_replies_of_Execute:
  assumes "Execute c (Run_sentence command args) = Returns (replies, None, c1)"
  shows "((\<exists>r \<in> set replies. IsTrap r) \<longrightarrow>
            (\<exists>r \<in> set replies. IsTrap r \<and>
               Run c command args = Returns (Inl (NewTrapError r), c1))) \<and>
         ((\<forall>r \<in> set replies. \<not> IsTrap r) \<and> (\<exists>r \<in> set replies. IsFatal r) \<longrightarrow>
            (\<exists>r \<in> set replies. IsFatal r \<and>
               Run c command args = Returns (Inl (NewFatalError r), closeConn c1)) \<and>
            \<not> connected (closeConn c1) \<and> conn (closeConn c1) = None) \<and>
         ((\<forall>r \<in> set replies. \<not> IsTrap r \<and> \<not> IsFatal r) \<longrightarrow>
            Run c command args = Returns (Inr (map Data (filter IsData replies)), c1))"
proof -
  have run: "Run c command args = Returns (Run_loop replies [] c1)"
    using assms by (rule Run_after_Execute)
  obtain new t where shape: "replies = new @ [t]" "IsDone t \<or> IsFatal t"
      "\<forall>r \<in> set new. \<not> IsDone r \<and> \<not> IsFatal r"
    using Execute_shape [OF assms] by blast
  have trap: "\<exists>r \<in> set replies. IsTrap r \<and>
      Run c command args = Returns (Inl (NewTrapError r), c1)"
    if "\<exists>r \<in> set replies. IsTrap r"
  proof -
    have "\<not> IsTrap t" using shape(2) by (auto simp: reply_tests)
    then have "\<exists>r \<in> set new. IsTrap r" using that shape(1) by auto
    then obtain pre r post where sp: "new = pre @ r # post" "IsTrap r"
        "\<forall>y \<in> set pre. \<not> IsTrap y"
      using split_list_first_prop [of new IsTrap] by blast
    have "\<forall>y \<in> set pre. \<not> IsTrap y \<and> \<not> IsFatal y" using sp(1,3) shape(3) by simp
    then have "Run_loop (pre @ r # (post @ [t])) [] c1 = (Inl (NewTrapError r), c1)"
      using sp(2) by (rule Run_loop_first_trap)
    then have "Run c command args = Returns (Inl (NewTrapError r), c1)"
      using run shape(1) sp(1) by simp
    moreover have "r \<in> set replies" using shape(1) sp(1) by simp
    ultimately show ?thesis using sp(2) by blast
  qed
  have fatal: "\<exists>r \<in> set replies. IsFatal r \<and>
      Run c command args = Returns (Inl (NewFatalError r), closeConn c1)"
    if "(\<forall>r \<in> set replies. \<not> IsTrap r) \<and> (\<exists>r \<in> set replies. IsFatal r)"
  proof -
    have ft: "IsFatal t" using that shape(1,3) by auto
    have "\<forall>y \<in> set new. \<not> IsTrap y \<and> \<not> IsFatal y" using that shape(1,3) by simp
    moreover have "\<not> IsTrap t" using that shape(1) by simp
    ultimately have "Run_loop (new @ t # []) [] c1 = (Inl (NewFatalError t), closeConn c1)"
      using ft by (rule Run_loop_first_fatal)
    then have "Run c command args = Returns (Inl (NewFatalError t), closeConn c1)"
      using run shape(1) by simp
    then show ?thesis using ft shape(1) by simp
  qed
  have rows: "Run c command args = Returns (Inr (map Data (filter IsData replies)), c1)"
    if "\<forall>r \<in> set replies. \<not> IsTrap r \<and> \<not> IsFatal r"
    using run Run_loop_clean [OF that, of "[]" c1] by simp
  show ?thesis using trap fatal rows by (simp add: closeConn_def)
qed



text \<open>
  C6 at a concrete exchange. The device answers \<open>/interface/print\<close> with a \<open>!trap\<close>
  and then ends the session with a \<open>!fatal\<close>; \<open>Execute\<close> returns both replies. C6 says
  that a fatal reply makes \<open>Run\<close> force-close the connection and fail with a
  FatalError. \<open>Run\<close> returns at the trap with a TrapError and never reaches
  \<open>closeConn\<close>: the client stays connected on a session the device has ended, and the
  next \<open>Run\<close> writes to it and fails with a ProtocolError on the read instead of
  \<open>ErrNotConnected\<close>. When the \<open>!fatal\<close> comes alone, \<open>Run\<close> does close the connection
  and the next \<open>Run\<close> fails with \<open>ErrNotConnected\<close>.
\<close>

theorem Run_trap_before_fatal_leaves_connection_open:
  "Execute (admin_client (Some (device [no_such_command_trap, session_fatal])) True)
      (Run_sentence ''/interface/print'' []) =
     Returns ([no_such_command_trap, session_fatal], None,
       admin_client (Some ((device [])\<lparr>writes_ok := 3,
          sent := [\<lparr>Word = ''/interface/print'', Words = []\<rparr>]\<rparr>)) True) \<and>
   IsFatal session_fatal \<and>
   Run (admin_client (Some (device [no_such_command_trap, session_fatal])) True)
      ''/interface/print'' [] =
     Returns (Inl (APIError ErrTypeTrap ''no such command'' [] None False),
       admin_client (Some ((device [])\<lparr>writes_ok := 3,
          sent := [\<lparr>Word = ''/interface/print'', Words = []\<rparr>]\<rparr>)) True) \<and>
   connected (admin_client (Some ((device [])\<lparr>writes_ok := 3,
          sent := [\<lparr>Word = ''/interface/print'', Words = []\<rparr>]\<rparr>)) True) \<and>
   conn (admin_client (Some ((device [])\<lparr>writes_ok := 3,
          sent := [\<lparr>Word = ''/interface/print'', Words = []\<rparr>]\<rparr>)) True) \<noteq> None \<and>
   Run (admin_client (Some ((device [])\<lparr>writes_ok := 3,
          sent := [\<lparr>Word = ''/interface/print'', Words = []\<rparr>]\<rparr>)) True)
      ''/interface/print'' [] =
     Returns (Inl (APIError ErrTypeProtocol ''failed to decode reply'' []
                (Some (Errorf ''failed to read reply type'' (IOError EOF))) False),
       admin_client (Some ((device [])\<lparr>writes_ok := 2,
          sent := [\<lparr>Word = ''/interface/print'', Words = []\<rparr>,
                   \<lparr>Word = ''/interface/print'', Words = []\<rparr>]\<rparr>)) True) \<and>
   Run (admin_client (Some (device [session_fatal])) True) ''/interface/print'' [] =
     Returns (Inl (APIError ErrTypeFatal ''session terminated'' [] None False),
       admin_client None False) \<and>
   Run (admin_client None False) ''/interface/print'' [] =
     Returns (Inl (APIError ErrTypeConnection ''not connected to router'' [] None False),
       admin_client None False)"
  by (simp add: Run_def io_defs scenario_defs reply_tests readAllReplies_loop.simps
      NewTrapError_def NewFatalError_def NewProtocolError_def ErrNotConnected_def
      closeConn_def GetMessage_def index_or_empty_def isTrapTemporary_def)

section \<open>Authentication and the retry loop of Connect\<close>

lemma writeSentence_ok:
  assumes "conn c = Some cn" "writes_ok cn > 0"
  shows "writeSentence c s =
    Returns (None, c\<lparr>conn := Some (cn\<lparr>writes_ok := writes_ok cn - 1, sent := sent cn @ [s]\<rparr>)\<rparr>)"
  using assms by (simp add: writeSentence_def)

text \<open>
  Whenever the first reply on a connection is a trap, \<open>tryNewLogin\<close> returns an
  AuthError, and \<open>authenticate\<close> drops it and runs the legacy login on the same
  connection: its result is the result of \<open>tryLegacyLogin\<close>.
\<close>

lemma tryNewLogin_trap:
  assumes "conn c = Some cn" "writes_ok cn > 0" "incoming cn = r # rs" "IsTrap r"
  shows "tryNewLogin resp c =
     Returns (Some (NewAuthError (GetMessage r)),
       c\<lparr>conn := Some (cn\<lparr>incoming := rs, writes_ok := writes_ok cn - 1,
          sent := sent cn @
            [AddAttribute (AddAttribute (NewSentence ''/login'') ''name'' (Username (config c)))
               ''password'' (Password (config c))]\<rparr>)\<rparr>)"
  using assms
  by (simp add: tryNewLogin_def Let_def writeSentence_ok [OF assms(1,2)] readReply_def
      DecodeSentence_def)

lemma authenticate_trap_goes_on_to_legacy:
  assumes "conn c = Some cn" "writes_ok cn > 0" "incoming cn = r # rs" "IsTrap r"
  shows "authenticate resp c =
     tryLegacyLogin resp
       (c\<lparr>conn := Some (cn\<lparr>incoming := rs, writes_ok := writes_ok cn - 1,
          sent := sent cn @
            [AddAttribute (AddAttribute (NewSentence ''/login'') ''name'' (Username (config c)))
               ''password'' (Password (config c))]\<rparr>)\<rparr>)"
  by (simp add: authenticate_def tryNewLogin_trap [OF assms])

lemma authenticate_rejected_then_bare_done:
  "authenticate resp (admin_client (Some (device [bad_login_trap, bare_done])) False) =
     Returns (Some (NewProtocolError ''no challenge received'' None),
       admin_client (Some ((device [])\<lparr>writes_ok := 2,
           sent := [\<lparr>Word = ''/login'', Words = [''=name=admin'', ''=password=secret'']\<rparr>,
                    \<lparr>Word = ''/login'', Words = []\<rparr>]\<rparr>)) False)"
  by (simp add: authenticate_def tryNewLogin_def tryLegacyLogin_def writeSentence_def
      readReply_def DecodeSentence_def Let_def scenario_defs reply_tests NewSentence_def
      AddAttribute_def GetMessage_def)

text \<open>
  C1 at a concrete device, which answers the modern \<open>/login\<close> (sent with \<open>name\<close> and
  \<open>password\<close>) with a trap and a bare \<open>/login\<close> with \<open>!done\<close>. \<open>authenticate\<close> sends the
  bare \<open>/login\<close> of the legacy exchange after the trap and returns a ProtocolError,
  which is not an AuthError. \<open>Connect\<close>, configured with one retry, therefore dials a
  second time: of three connections on offer only the third is left unused, and the
  error returned is the ProtocolError. C1 says that no legacy exchange is attempted and
  that \<open>Connect\<close> stops after the first attempt with an AuthError.
\<close>

theorem authenticate_login_trap_falls_back_to_legacy:
  "authenticate resp (admin_client (Some (device [bad_login_trap, bare_done])) False) =
     Returns (Some (APIError ErrTypeProtocol ''no challenge received'' [] None False),
       admin_client (Some ((device [])\<lparr>writes_ok := 2,
           sent := [\<lparr>Word = ''/login'', Words = [''=name=admin'', ''=password=secret'']\<rparr>,
                    \<lparr>Word = ''/login'', Words = []\<rparr>]\<rparr>)) False) \<and>
   \<not> IsAuthError (APIError ErrTypeProtocol ''no challenge received'' [] None False) \<and>
   Connect (patient_env resp) (admin_client None False)
      [DialOk (device [bad_login_trap, bare_done]), DialOk (device [bad_login_trap, bare_done]),
       DialOk (device [bare_done])] =
     Returns (Some (APIError ErrTypeProtocol ''no challenge received'' [] None False),
       (admin_client None False)\<lparr>circuitBreaker :=
          recordFailure 2000 (newCircuitBreaker 5 30000000000)\<rparr>,
       [DialOk (device [bare_done])])"
proof (intro conjI)
  show "authenticate resp (admin_client (Some (device [bad_login_trap, bare_done])) False) =
     Returns (Some (APIError ErrTypeProtocol ''no challenge received'' [] None False),
       admin_client (Some ((device [])\<lparr>writes_ok := 2,
           sent := [\<lparr>Word = ''/login'', Words = [''=name=admin'', ''=password=secret'']\<rparr>,
                    \<lparr>Word = ''/login'', Words = []\<rparr>]\<rparr>)) False)"
    using authenticate_rejected_then_bare_done [of resp] by (simp add: NewProtocolError_def)
  show "\<not> IsAuthError (APIError ErrTypeProtocol ''no challenge received'' [] None False)"
    by (simp add: IsAuthError_def)
  show "Connect (patient_env resp) (admin_client None False)
      [DialOk (device [bad_login_trap, bare_done]), DialOk (device [bad_login_trap, bare_done]),
       DialOk (device [bare_done])] =
     Returns (Some (APIError ErrTypeProtocol ''no challenge received'' [] None False),
       (admin_client None False)\<lparr>circuitBreaker :=
          recordFailure 2000 (newCircuitBreaker 5 30000000000)\<rparr>,
       [DialOk (device [bare_done])])"
    apply (simp add: Connect_def canAttempt_def newCircuitBreaker_def admin_client_def
        admin_config_def patient_env_def)
    apply (simp add: connect_def numeral_2_eq_2 closeConn_def IsAuthError_def
        NewProtocolError_def
        authenticate_rejected_then_bare_done
          [unfolded admin_client_def admin_config_def newCircuitBreaker_def])
    done
qed

section \<open>NAT collection: the cap on kept rows and the scan cutoff\<close>

lemma collectNAT_loop_cap:
  assumes "int (length result) \<le> maxConns"
  shows "int (length (fst (collectNAT_loop cfg maxConns draw i rows result stats scanned))) \<le> maxConns"
  using assms
proof (induction rows arbitrary: i result stats scanned)
  case Nil
  then show ?case by simp
next
  case (Cons conn rest)
  show ?case
  proof (cases "SamplingEnabled cfg \<and> SampleRate cfg < 1 \<and> draw i > SampleRate cfg")
    case True
    then show ?thesis using Cons.IH [OF Cons.prems] by simp
  next
    case False
    show ?thesis
    proof (cases "int (length result) \<ge> maxConns")
      case True
      then show ?thesis using False Cons.prems by auto
    next
      case full: False
      let ?result = "result @ [parseNATConnection conn]"
      have le: "int (length ?result) \<le> maxConns" using full by simp
      show ?thesis
        using False full le Cons.IH [OF le] by (auto simp add: Let_def)
    qed
  qed
qed

lemma collectNAT_cap:
  "int (length (fst (collectNAT cfg draw ctStats connections))) \<le>
     (if MaxConnections cfg \<le> 0 then 10000 else MaxConnections cfg)"
proof (cases connections)
  case (Inl err)
  then show ?thesis by (simp add: collectNAT_def Let_def)
next
  case (Inr rows)
  let ?m = "if MaxConnections cfg \<le> 0 then 10000 else MaxConnections cfg"
  have "int (length ([] :: NATConnection list)) \<le> ?m" by simp
  from collectNAT_loop_cap [OF this]
  show ?thesis using Inr by (simp add: collectNAT_def Let_def split_beta)
qed

lemma collectNAT_loop_all_sampled_out:
  assumes "SamplingEnabled cfg" "SampleRate cfg < 1" "\<And>k. draw k > SampleRate cfg"
  shows "collectNAT_loop cfg maxConns draw i rows result stats scanned =
           (result, stats, scanned + length rows)"
  using assms by (induction rows arbitrary: i scanned) simp_all

lemma collectNAT_all_sampled_out:
  assumes "SamplingEnabled cfg" "SampleRate cfg < 1" "\<And>k. draw k > SampleRate cfg"
  shows "snd (snd (snd (collectNAT cfg draw ctStats (Inr rows)))) = length rows"
    and "fst (collectNAT cfg draw ctStats (Inr rows)) = []"
  by (simp_all add: collectNAT_def Let_def collectNAT_loop_all_sampled_out [OF assms])

text \<open>
  Without sampling the row index check ends the scan: started at row 0, the loop looks
  at no more than 100002 rows.
\<close>

lemma collectNAT_loop_scan_without_sampling:
  assumes "\<not> (SamplingEnabled cfg \<and> SampleRate cfg < 1)" "i \<le> 100001"
  shows "snd (snd (collectNAT_loop cfg maxConns draw i rows result stats scanned)) \<le>
           scanned + (100002 - i)"
  using assms(2)
proof (induction rows arbitrary: i result stats scanned)
  case Nil
  then show ?case by simp
next
  case (Cons conn rest)
  show ?case
  proof (cases "int (length result) \<ge> maxConns \<or> i > 100000")
    case True
    then show ?thesis using assms(1) Cons.prems by (auto simp add: Let_def)
  next
    case False
    then have i: "Suc i \<le> 100001" by simp
    let ?result = "result @ [parseNATConnection conn]"
    let ?stats = "count_protocol (parseNATConnection conn) stats"
    have step: "collectNAT_loop cfg maxConns draw i (conn # rest) result stats scanned =
        collectNAT_loop cfg maxConns draw (Suc i) rest ?result ?stats (Suc scanned)"
      using assms(1) False by (auto simp add: Let_def)
    have "snd (snd (collectNAT_loop cfg maxConns draw (Suc i) rest ?result ?stats (Suc scanned)))
        \<le> Suc scanned + (100002 - Suc i)"
      using i by (rule Cons.IH)
    also have "\<dots> = scanned + (100002 - i)" using False by arith
    finally show ?thesis unfolding step .
  qed
qed

text \<open>
  C8 on the code. The first conjunct holds for every input: the number of rows kept
  never exceeds \<open>MaxConnections\<close>, or 10000 when that is zero or negative, whatever the
  sample rate and the numbers drawn. The rest evaluates \<open>collectNAT\<close> with sampling
  enabled at a sample rate of 0 on 150000 raw rows: every row is sampled out by
  \<open>continue\<close>, which also skips the check \<open>i > 100000\<close> at the end of the loop body, so
  the loop looks at all 150000 rows, where C8 says the scan stops at the 100000-row
  cutoff.
\<close>

theorem collectNAT_cap_and_scan_beyond_cutoff:
  "int (length (fst (collectNAT cfg draw ctStats connections))) \<le>
     (if MaxConnections cfg \<le> 0 then 10000 else MaxConnections cfg) \<and>
   fst (collectNAT \<lparr>SamplingEnabled = True, SampleRate = 0, MaxConnections = 10000\<rparr>
      (\<lambda>i. 1 / 2) (Inr None) (Inr (replicate 150000 Map.empty))) = [] \<and>
   snd (snd (snd (collectNAT \<lparr>SamplingEnabled = True, SampleRate = 0, MaxConnections = 10000\<rparr>
      (\<lambda>i. 1 / 2) (Inr None) (Inr (replicate 150000 Map.empty))))) = 150000"
proof -
  let ?cfg = "\<lparr>SamplingEnabled = True, SampleRate = 0, MaxConnections = 10000\<rparr>"
  have a: "SamplingEnabled ?cfg" "SampleRate ?cfg < 1"
    "\<And>k. (\<lambda>i. 1 / 2 :: rat) k > SampleRate ?cfg"
    by simp_all
  have "fst (collectNAT ?cfg (\<lambda>i. 1 / 2) (Inr None) (Inr (replicate 150000 Map.empty))) = [] \<and>
    snd (snd (snd (collectNAT ?cfg (\<lambda>i. 1 / 2) (Inr None)
      (Inr (replicate 150000 Map.empty))))) = 150000"
    unfolding collectNAT_all_sampled_out [OF a] by (simp only: length_replicate simp_thms)
  then show ?thesis using collectNAT_cap [of cfg draw ctStats connections] by blast
qed

section \<open>Interface rates\<close>

lemma previous_observation_snoc:
  "previous_observation name (history @ [ob]) =
     (if ifname ob = name then Some ob else previous_observation name history)"
  by (simp add: previous_observation_def)

lemma states_observe:
  "states (snd (observe ob t)) = (states t)(ifname ob \<mapsto> recorded ob)"
  by (simp add: observe_def updateAndCalculateRates_def recorded_def Let_def)

lemma observe_all_snoc:
  "observe_all (history @ [ob]) t = snd (observe ob (observe_all history t))"
  by (induction history arbitrary: t) simp_all

lemma states_observe_all:
  "states (observe_all history t) name =
     (case previous_observation name history of
        None \<Rightarrow> states t name
      | Some ob \<Rightarrow> Some (recorded ob))"
proof (induction history rule: rev_induct)
  case Nil
  then show ?case by (simp add: previous_observation_def)
next
  case (snoc ob history)
  then show ?case
    by (simp add: observe_all_snoc states_observe previous_observation_snoc)
qed

lemma first_observation_zero:
  assumes "states t name = None"
  shows "fst (updateAndCalculateRates now t name rx tx rxp txp) = (0, 0, 0, 0)"
  using assms by (simp add: updateAndCalculateRates_def)

lemma later_observation_rates:
  assumes "states t name = Some prev" "timestamp prev \<noteq> 0" "timestamp prev < now"
  shows "fst (updateAndCalculateRates now t name rx tx rxp txp) =
     (float64_of_uint64 (Handle64BitCounterWrap rx (rxBytes prev)) / Seconds (now - timestamp prev),
      float64_of_uint64 (Handle64BitCounterWrap tx (txBytes prev)) / Seconds (now - timestamp prev),
      float64_of_uint64 (Handle64BitCounterWrap rxp (rxPackets prev)) / Seconds (now - timestamp prev),
      float64_of_uint64 (Handle64BitCounterWrap txp (txPackets prev)) / Seconds (now - timestamp prev))"
proof -
  have "Seconds (now - timestamp prev) > 0" using assms(3) by (simp add: Seconds_def)
  then show ?thesis
    using assms(1,2) by (simp add: updateAndCalculateRates_def IsZero_def Let_def)
qed

lemma observation_without_elapsed_time_zero:
  assumes "states t name = Some prev" "now \<le> timestamp prev \<or> timestamp prev = 0"
  shows "fst (updateAndCalculateRates now t name rx tx rxp txp) = (0, 0, 0, 0)"
proof -
  have "timestamp prev \<noteq> 0 \<Longrightarrow> \<not> Seconds (now - timestamp prev) > 0"
    using assms(2) by (simp add: Seconds_def)
  then show ?thesis
    using assms(1) by (auto simp add: updateAndCalculateRates_def IsZero_def Let_def)
qed

text \<open>
  C5, as stated, promises the quotient of delta and elapsed time for every call after
  the first. The code computes it only when the elapsed time is positive. Two calls
  for \<open>ether1\<close> at the same clock reading, the counter \<open>rx\<close> going from 1000 to 2000:
  the second call returns the rate 0, while the delta is 1000 and the elapsed time is
  0 seconds, so the rate returned is not the delta divided by the elapsed time (no
  rate multiplied by 0 seconds gives 1000; in \<open>float64\<close> the quotient is infinite).
\<close>

theorem rates_zero_elapsed_counterexample:
  "previous_observation ''ether1''
     [\<lparr>ifname = ''ether1'', rx_bytes = 1000, tx_bytes = 500, rx_pkts = 100, tx_pkts = 50,
       seen_at = 1000000000\<rparr>] =
     Some \<lparr>ifname = ''ether1'', rx_bytes = 1000, tx_bytes = 500, rx_pkts = 100, tx_pkts = 50,
           seen_at = 1000000000\<rparr> \<and>
   fst (observe
          \<lparr>ifname = ''ether1'', rx_bytes = 2000, tx_bytes = 500, rx_pkts = 100, tx_pkts = 50,
           seen_at = 1000000000\<rparr>
          (observe_all
             [\<lparr>ifname = ''ether1'', rx_bytes = 1000, tx_bytes = 500, rx_pkts = 100,
               tx_pkts = 50, seen_at = 1000000000\<rparr>] newInterfaceTracker)) = (0, 0, 0, 0) \<and>
   float64_of_uint64 (Handle64BitCounterWrap 2000 1000) = 1000 \<and>
   Seconds (1000000000 - 1000000000) = 0 \<and>
   (0 :: rat) * Seconds (1000000000 - 1000000000) \<noteq>
     float64_of_uint64 (Handle64BitCounterWrap 2000 1000)"
  by (simp add: previous_observation_def observe_def updateAndCalculateRates_def
      newInterfaceTracker_def IsZero_def Seconds_def float64_of_uint64_def
      Handle64BitCounterWrap_def Let_def)

text \<open>
  C5, amended. For every interface name, the first-ever call of
  \<open>updateAndCalculateRates\<close> for that name returns all four rates equal to zero while
  recording the observation; every later call made at a clock reading after that of
  the previous observation of the same name returns each rate equal to the
  wraparound-corrected counter delta divided by the seconds elapsed since that
  observation, provided that observation is not stamped with the zero \<open>Time\<close>, which
  the code takes for a missing baseline. A later call with no positive elapsed time
  (a clock reading not after that of the previous observation), or one whose previous
  observation is stamped with the zero \<open>Time\<close>, returns all four rates equal to zero.
  Every call records its observation. Here \<open>history\<close> lists the calls made so far on a
  new tracker, oldest first, and \<open>ob\<close> is the call in question.
\<close>

theorem interface_rates_from_previous_observation:
  "(previous_observation (ifname ob) history = None \<longrightarrow>
      fst (observe ob (observe_all history newInterfaceTracker)) = (0, 0, 0, 0)) \<and>
   (\<forall>prev. previous_observation (ifname ob) history = Some prev \<and>
       seen_at prev \<noteq> 0 \<and> seen_at prev < seen_at ob \<longrightarrow>
      fst (observe ob (observe_all history newInterfaceTracker)) =
        (float64_of_uint64 (Handle64BitCounterWrap (rx_bytes ob) (rx_bytes prev)) /
           Seconds (seen_at ob - seen_at prev),
         float64_of_uint64 (Handle64BitCounterWrap (tx_bytes ob) (tx_bytes prev)) /
           Seconds (seen_at ob - seen_at prev),
         float64_of_uint64 (Handle64BitCounterWrap (rx_pkts ob) (rx_pkts prev)) /
           Seconds (seen_at ob - seen_at prev),
         float64_of_uint64 (Handle64BitCounterWrap (tx_pkts ob) (tx_pkts prev)) /
           Seconds (seen_at ob - seen_at prev))) \<and>
   (\<forall>prev. previous_observation (ifname ob) history = Some prev \<and>
       (seen_at ob \<le> seen_at prev \<or> seen_at prev = 0) \<longrightarrow>
      fst (observe ob (observe_all history newInterfaceTracker)) = (0, 0, 0, 0)) \<and>
   previous_observation (ifname ob) (history @ [ob]) = Some ob \<and>
   states (snd (observe ob (observe_all history newInterfaceTracker))) (ifname ob) =
     Some \<lparr>rxBytes = rx_bytes ob, txBytes = tx_bytes ob, rxPackets = rx_pkts ob,
           txPackets = tx_pkts ob, timestamp = seen_at ob\<rparr>"
proof (intro conjI impI allI)
  let ?t = "observe_all history newInterfaceTracker"
  show "fst (observe ob ?t) = (0, 0, 0, 0)"
    if "previous_observation (ifname ob) history = None"
  proof -
    have "states ?t (ifname ob) = None"
      using that by (simp add: states_observe_all newInterfaceTracker_def)
    then show ?thesis unfolding observe_def by (rule first_observation_zero)
  qed
  show "fst (observe ob ?t) =
        (float64_of_uint64 (Handle64BitCounterWrap (rx_bytes ob) (rx_bytes prev)) /
           Seconds (seen_at ob - seen_at prev),
         float64_of_uint64 (Handle64BitCounterWrap (tx_bytes ob) (tx_bytes prev)) /
           Seconds (seen_at ob - seen_at prev),
         float64_of_uint64 (Handle64BitCounterWrap (rx_pkts ob) (rx_pkts prev)) /
           Seconds (seen_at ob - seen_at prev),
         float64_of_uint64 (Handle64BitCounterWrap (tx_pkts ob) (tx_pkts prev)) /
           Seconds (seen_at ob - seen_at prev))"
    if h: "previous_observation (ifname ob) history = Some prev \<and>
       seen_at prev \<noteq> 0 \<and> seen_at prev < seen_at ob" for prev
  proof -
    have s: "states ?t (ifname ob) = Some (recorded prev)"
      using h by (simp add: states_observe_all)
    have "timestamp (recorded prev) \<noteq> 0" "timestamp (recorded prev) < seen_at ob"
      using h by (simp_all add: recorded_def)
    from later_observation_rates [OF s this]
    show ?thesis by (simp add: observe_def recorded_def)
  qed
  show "fst (observe ob ?t) = (0, 0, 0, 0)"
    if h: "previous_observation (ifname ob) history = Some prev \<and>
       (seen_at ob \<le> seen_at prev \<or> seen_at prev = 0)" for prev
  proof -
    have s: "states ?t (ifname ob) = Some (recorded prev)"
      using h by (simp add: states_observe_all)
    have "seen_at ob \<le> timestamp (recorded prev) \<or> timestamp (recorded prev) = 0"
      using h by (simp add: recorded_def)
    from observation_without_elapsed_time_zero [OF s this]
    show ?thesis by (simp add: observe_def)
  qed
  show "previous_observation (ifname ob) (history @ [ob]) = Some ob"
    by (simp add: previous_observation_snoc)
  show "states (snd (observe ob ?t)) (ifname ob) =
     Some \<lparr>rxBytes = rx_bytes ob, txBytes = tx_bytes ob, rxPackets = rx_pkts ob,
           txPackets = tx_pkts ob, timestamp = seen_at ob\<rparr>"
    by (simp add: states_observe recorded_def)
qed


theorem interface_rates_from_previous_observation_witness:
  "previous_observation ''ether1''
     [\<lparr>ifname = ''ether1'', rx_bytes = 1000, tx_bytes = 500, rx_pkts = 100, tx_pkts = 50,
       seen_at = 1000000000\<rparr>,
      \<lparr>ifname = ''ether2'', rx_bytes = 7, tx_bytes = 7, rx_pkts = 7, tx_pkts = 7,
       seen_at = 1500000000\<rparr>] =
     Some \<lparr>ifname = ''ether1'', rx_bytes = 1000, tx_bytes = 500, rx_pkts = 100, tx_pkts = 50,
           seen_at = 1000000000\<rparr> \<and>
   (1000000000 :: int) \<noteq> 0 \<and> (1000000000 :: int) < 2000000000 \<and>
   fst (observe
          \<lparr>ifname = ''ether1'', rx_bytes = 2000, tx_bytes = 500, rx_pkts = 100, tx_pkts = 50,
           seen_at = 2000000000\<rparr>
          (observe_all
             [\<lparr>ifname = ''ether1'', rx_bytes = 1000, tx_bytes = 500, rx_pkts = 100,
               tx_pkts = 50, seen_at = 1000000000\<rparr>,
              \<lparr>ifname = ''ether2'', rx_bytes = 7, tx_bytes = 7, rx_pkts = 7, tx_pkts = 7,
               seen_at = 1500000000\<rparr>] newInterfaceTracker)) = (1000, 0, 0, 0) \<and>
   previous_observation ''ether3''
     [\<lparr>ifname = ''ether1'', rx_bytes = 1000, tx_bytes = 500, rx_pkts = 100, tx_pkts = 50,
       seen_at = 1000000000\<rparr>,
      \<lparr>ifname = ''ether2'', rx_bytes = 7, tx_bytes = 7, rx_pkts = 7, tx_pkts = 7,
       seen_at = 1500000000\<rparr>] = None \<and>
   fst (observe
          \<lparr>ifname = ''ether3'', rx_bytes = 2000, tx_bytes = 500, rx_pkts = 100, tx_pkts = 50,
           seen_at = 2000000000\<rparr>
          (observe_all
             [\<lparr>ifname = ''ether1'', rx_bytes = 1000, tx_bytes = 500, rx_pkts = 100,
               tx_pkts = 50, seen_at = 1000000000\<rparr>,
              \<lparr>ifname = ''ether2'', rx_bytes = 7, tx_bytes = 7, rx_pkts = 7, tx_pkts = 7,
               seen_at = 1500000000\<rparr>] newInterfaceTracker)) = (0, 0, 0, 0) \<and>
   previous_observation ''ether2''
     [\<lparr>ifname = ''ether1'', rx_bytes = 1000, tx_bytes = 500, rx_pkts = 100, tx_pkts = 50,
       seen_at = 1000000000\<rparr>,
      \<lparr>ifname = ''ether2'', rx_bytes = 7, tx_bytes = 7, rx_pkts = 7, tx_pkts = 7,
       seen_at = 1500000000\<rparr>] =
     Some \<lparr>ifname = ''ether2'', rx_bytes = 7, tx_bytes = 7, rx_pkts = 7, tx_pkts = 7,
           seen_at = 1500000000\<rparr> \<and>
   (1500000000 :: int) \<le> 1500000000 \<and>
   fst (observe
          \<lparr>ifname = ''ether2'', rx_bytes = 9000, tx_bytes = 7, rx_pkts = 7, tx_pkts = 7,
           seen_at = 1500000000\<rparr>
          (observe_all
             [\<lparr>ifname = ''ether1'', rx_bytes = 1000, tx_bytes = 500, rx_pkts = 100,
               tx_pkts = 50, seen_at = 1000000000\<rparr>,
              \<lparr>ifname = ''ether2'', rx_bytes = 7, tx_bytes = 7, rx_pkts = 7, tx_pkts = 7,
               seen_at = 1500000000\<rparr>] newInterfaceTracker)) = (0, 0, 0, 0)"
proof -
  let ?o1 = "\<lparr>ifname = ''ether1'', rx_bytes = 1000, tx_bytes = 500, rx_pkts = 100,
      tx_pkts = 50, seen_at = 1000000000\<rparr>"
  let ?o2 = "\<lparr>ifname = ''ether2'', rx_bytes = 7, tx_bytes = 7, rx_pkts = 7, tx_pkts = 7,
      seen_at = 1500000000\<rparr>"
  let ?ob = "\<lparr>ifname = ''ether1'', rx_bytes = 2000, tx_bytes = 500, rx_pkts = 100,
      tx_pkts = 50, seen_at = 2000000000\<rparr>"
  let ?ob3 = "\<lparr>ifname = ''ether3'', rx_bytes = 2000, tx_bytes = 500, rx_pkts = 100,
      tx_pkts = 50, seen_at = 2000000000\<rparr>"
  have p1: "previous_observation ''ether1'' [?o1, ?o2] = Some ?o1"
    by (simp add: previous_observation_def)
  let ?ob2 = "\<lparr>ifname = ''ether2'', rx_bytes = 9000, tx_bytes = 7, rx_pkts = 7,
      tx_pkts = 7, seen_at = 1500000000\<rparr>"
  have p3: "previous_observation ''ether3'' [?o1, ?o2] = None"
    by (simp add: previous_observation_def)
  have p2: "previous_observation ''ether2'' [?o1, ?o2] = Some ?o2"
    by (simp add: previous_observation_def)
  have q: "float64_of_uint64 (Handle64BitCounterWrap 2000 1000) / Seconds (2000000000 - 1000000000)
      = 1000"
    "float64_of_uint64 (Handle64BitCounterWrap 500 500) / Seconds (2000000000 - 1000000000) = 0"
    "float64_of_uint64 (Handle64BitCounterWrap 100 100) / Seconds (2000000000 - 1000000000) = 0"
    "float64_of_uint64 (Handle64BitCounterWrap 50 50) / Seconds (2000000000 - 1000000000) = 0"
    by (simp_all add: float64_of_uint64_def Handle64BitCounterWrap_def Seconds_def)
  have "fst (observe ?ob (observe_all [?o1, ?o2] newInterfaceTracker)) = (1000, 0, 0, 0)"
    using interface_rates_from_previous_observation [of ?ob "[?o1, ?o2]"] p1 q by simp
  moreover have "fst (observe ?ob3 (observe_all [?o1, ?o2] newInterfaceTracker)) = (0, 0, 0, 0)"
    using interface_rates_from_previous_observation [of ?ob3 "[?o1, ?o2]"] p3 by simp
  moreover have "fst (observe ?ob2 (observe_all [?o1, ?o2] newInterfaceTracker)) = (0, 0, 0, 0)"
    using interface_rates_from_previous_observation [of ?ob2 "[?o1, ?o2]"] p2 by simp
  ultimately show ?thesis using p1 p2 p3 by simp
qed

section \<open>Utility parsers\<close>




















end
